theory Spec2Isabelle
  imports Main "HOL-Library.Sublist"
begin

section \<open>Python values, exceptions and string operations\<close>

text \<open>
  Values that reach the program from JSON bodies (\<^verbatim>\<open>r.json()\<close>). \<open>JNull\<close> is Python's
  \<^verbatim>\<open>None\<close>; JSON numbers are kept as integers. A function of the source annotated
  \<^verbatim>\<open>Optional[str]\<close> whose value can come out of a JSON body returns a \<open>json\<close> here.
\<close>

datatype json =
    JNull
  | JBool bool
  | JNum int
  | JStr string
  | JArr "json list"
  | JObj "(string \<times> json) list"

text \<open>Python's truth value of an object, as \<^verbatim>\<open>if x:\<close> and \<^verbatim>\<open>x or y\<close> read it.\<close>

fun truthy :: "json \<Rightarrow> bool" where
  "truthy JNull = False"
| "truthy (JBool b) = b"
| "truthy (JNum n) = (n \<noteq> 0)"
| "truthy (JStr s) = (s \<noteq> [])"
| "truthy (JArr xs) = (xs \<noteq> [])"
| "truthy (JObj kvs) = (kvs \<noteq> [])"

datatype transport_error = Timeout | NetworkError

datatype exn =
    IndexError
  | AttributeError
  | TypeError
  | JSONDecodeError
  | Transport transport_error
  | EOFError

text \<open>Sequencing of steps that can raise: the first exception ends the block.\<close>

definition and_then :: "exn + 'a \<Rightarrow> ('a \<Rightarrow> exn + 'b) \<Rightarrow> exn + 'b" where
  "and_then m f = (case m of Inl e \<Rightarrow> Inl e | Inr x \<Rightarrow> f x)"

text \<open>\<^verbatim>\<open>try: <body> except Exception: return v\<close>\<close>

definition except_return :: "exn + 'a \<Rightarrow> 'a \<Rightarrow> exn + 'a" where
  "except_return body v = (case body of Inl e \<Rightarrow> Inr v | Inr x \<Rightarrow> Inr x)"

definition startswith :: "string \<Rightarrow> string \<Rightarrow> bool" where
  "startswith s p = prefix p s"

definition endswith :: "string \<Rightarrow> string \<Rightarrow> bool" where
  "endswith s p = suffix p s"

text \<open>\<^verbatim>\<open>xs[i]\<close>: out of range raises \<^verbatim>\<open>IndexError\<close>.\<close>

definition item :: "'a list \<Rightarrow> nat \<Rightarrow> exn + 'a" where
  "item xs i = (if i < length xs then Inr (xs ! i) else Inl IndexError)"

text \<open>\<^verbatim>\<open>s.split(c, 1)\<close> for a one-character separator: one or two pieces.\<close>

definition split1 :: "char \<Rightarrow> string \<Rightarrow> string list" where
  "split1 c s = (case dropWhile (\<lambda>x. x \<noteq> c) s of
                   [] \<Rightarrow> [s]
                 | _ # rest \<Rightarrow> [takeWhile (\<lambda>x. x \<noteq> c) s, rest])"

text \<open>
  Characters are code points below 256. \<open>is_space\<close> is \<^verbatim>\<open>str.isspace\<close> on them, which
  is what \<^verbatim>\<open>str.strip()\<close> removes.
\<close>

definition is_space :: "char \<Rightarrow> bool" where
  "is_space c = (let n = (of_char c :: nat) in
     (9 \<le> n \<and> n \<le> 13) \<or> (28 \<le> n \<and> n \<le> 32) \<or> n = 133 \<or> n = 160)"

definition py_strip :: "string \<Rightarrow> string" where
  "py_strip s = rev (dropWhile is_space (rev (dropWhile is_space s)))"

text \<open>\<^verbatim>\<open>s.rstrip("/")\<close>\<close>

definition rstrip_slash :: "string \<Rightarrow> string" where
  "rstrip_slash s = rev (dropWhile (\<lambda>c. c = CHR ''/'') (rev s))"

definition lower_char :: "char \<Rightarrow> char" where
  "lower_char c = (let n = (of_char c :: nat) in
     if (65 \<le> n \<and> n \<le> 90) \<or> (192 \<le> n \<and> n \<le> 222 \<and> n \<noteq> 215)
     then char_of (n + 32) else c)"

definition py_lower :: "string \<Rightarrow> string" where
  "py_lower s = map lower_char s"

text \<open>\<^verbatim>\<open>x.get(k)\<close>: only a dict has the method; a missing key gives \<^verbatim>\<open>None\<close>.\<close>

definition lookup :: "(string \<times> json) list \<Rightarrow> string \<Rightarrow> json" where
  "lookup kvs k = (case map_of kvs k of None \<Rightarrow> JNull | Some v \<Rightarrow> v)"

definition py_get :: "json \<Rightarrow> string \<Rightarrow> exn + json" where
  "py_get x k = (case x of JObj kvs \<Rightarrow> Inr (lookup kvs k) | _ \<Rightarrow> Inl AttributeError)"

section \<open>The outside world\<close>

text \<open>
  The answers of DNS, of HTTP servers and of the login service are parameters of the
  model. A response carries its status, its text and the value \<^verbatim>\<open>r.json()\<close> parses from
  it (\<open>None\<close>: the body does not parse, and \<^verbatim>\<open>r.json()\<close> raises). A successful login gives
  \<^verbatim>\<open>client.me.did\<close> (\<open>None\<close>: \<^verbatim>\<open>client.me\<close> has no such attribute) and the \<^verbatim>\<open>did\<close> entry of
  the returned profile (\<open>None\<close>: the profile is no dict or has no such entry).
\<close>

record response =
  status_code :: int
  text_body :: string
  json_body :: "json option"

datatype login_result =
    LoginFailed string
  | LoggedIn "string option" "string option"

record client =
  base_url :: "string option"
  me_did :: "string option"

record env =
  dns_installed :: bool
  dns_resolve :: "string \<Rightarrow> transport_error + string list"
  http_get :: "string \<Rightarrow> (string \<times> string) list \<Rightarrow> transport_error + response"
  client_login :: "string option \<Rightarrow> string \<Rightarrow> string \<Rightarrow> login_result"
  create_record :: "client \<Rightarrow> string \<Rightarrow> bool"

text \<open>
  What a run does to the outside, in order. \<open>Invoke\<close> marks the entry of a resolution
  strategy; \<open>Login base identifier password\<close> is \<^verbatim>\<open>Client(base).login(identifier, password)\<close>,
  with \<open>None\<close> for the default \<^verbatim>\<open>Client()\<close>. Messages printed are not recorded.
\<close>

datatype strategy = DnsTxt | WellKnown | PublicResolver

datatype prompt =
    HandlePrompt
  | PasswordPrompt
  | TryAnotherHandle
  | ConfirmProceed
  | ConfirmAnotherAccount
  | ConfirmFollowAnother

datatype event =
    Invoke strategy
  | DnsQuery string
  | HttpGet string "(string \<times> string) list"
  | Login "string option" string string
  | Ask prompt
  | CreateRecord string string
  | Logout

type_synonym 'a io = "(exn + 'a) \<times> event list"

definition requests_get :: "env \<Rightarrow> string \<Rightarrow> (string \<times> string) list \<Rightarrow> exn + response" where
  "requests_get env url params =
     (case http_get env url params of Inl te \<Rightarrow> Inl (Transport te) | Inr r \<Rightarrow> Inr r)"

definition r_json :: "response \<Rightarrow> exn + json" where
  "r_json r = (case json_body r of None \<Rightarrow> Inl JSONDecodeError | Some j \<Rightarrow> Inr j)"

section \<open>Handle normalisation\<close>

definition strip_at :: "string \<Rightarrow> string" where
  "strip_at h = (if startswith h ''@'' then drop 1 h else h)"

definition maybe_assume_bsky :: "string \<Rightarrow> string" where
  "maybe_assume_bsky handle =
     (if startswith handle ''did:'' then handle
      else if CHR ''.'' \<notin> set handle then handle @ ''.bsky.social''
      else handle)"

section \<open>Handle resolution\<close>

text \<open>The loop over the TXT answers of \<^verbatim>\<open>resolve_handle_via_dns\<close>.\<close>

fun scan_answers :: "string list \<Rightarrow> exn + json" where
  "scan_answers [] = Inr JNull"
| "scan_answers (ans # rest) =
     (let text0 = py_strip ans;
          text1 = (if startswith text0 [CHR 0x22] \<and> endswith text0 [CHR 0x22]
                   then butlast (drop 1 text0) else text0)
      in if startswith text1 ''did=''
         then and_then (item (split1 CHR ''='' text1) 1) (\<lambda>v. Inr (JStr (py_strip v)))
         else scan_answers rest)"

definition resolve_handle_via_dns :: "env \<Rightarrow> string \<Rightarrow> json io" where
  "resolve_handle_via_dns env handle =
     (if \<not> dns_installed env then (Inr JNull, [Invoke DnsTxt])
      else
        let name = (case (if count_list handle CHR ''.'' \<ge> 1 \<and> \<not> startswith handle ''did:''
                          then item (split1 CHR ''.'' (strip_at handle)) 1
                          else Inr (strip_at handle)) of
                      Inl e \<Rightarrow> strip_at handle
                    | Inr n \<Rightarrow> n);
            query = ''_atproto.'' @ name
        in (case dns_resolve env query of
              Inl te \<Rightarrow> Inr JNull
            | Inr answers \<Rightarrow> scan_answers answers,
            [Invoke DnsTxt, DnsQuery query]))"

definition resolve_handle_via_well_known :: "env \<Rightarrow> string \<Rightarrow> json io" where
  "resolve_handle_via_well_known env handle =
     (let raw = strip_at handle in
      case (if CHR ''/'' \<in> set raw
            then (if CHR ''.'' \<in> set raw
                  then and_then (item (split1 CHR ''/'' raw) 0) (\<lambda>h. item (split1 CHR ''.'' h) 1)
                  else Inr raw)
            else (if CHR ''.'' \<in> set raw then item (split1 CHR ''.'' raw) 1 else Inr raw)) of
        Inl e \<Rightarrow> (Inl e, [Invoke WellKnown])
      | Inr domain \<Rightarrow>
          if domain = [] then (Inr JNull, [Invoke WellKnown])
          else
            let url = ''https://'' @ domain @ ''/.well-known/atproto-did'' in
            (except_return
               (and_then (requests_get env url [])
                  (\<lambda>r. if status_code r = 200 then Inr (JStr (py_strip (text_body r)))
                       else Inr JNull))
               JNull,
             [Invoke WellKnown, HttpGet url []]))"

definition resolve_handle_public_api :: "env \<Rightarrow> string \<Rightarrow> json io" where
  "resolve_handle_public_api env handle =
     (let url = ''https://bsky.social/xrpc/com.atproto.identity.resolveHandle'';
          params = [(''handle'', strip_at handle)]
      in (except_return
            (and_then (requests_get env url params)
               (\<lambda>r. if status_code r = 200
                    then and_then (r_json r) (\<lambda>data. py_get data ''did'')
                    else Inr JNull))
            JNull,
          [Invoke PublicResolver, HttpGet url params]))"

definition resolve_handle_to_did :: "env \<Rightarrow> string \<Rightarrow> json io" where
  "resolve_handle_to_did env handle0 =
     (let handle = strip_at handle0;
          (did1, t1) = (if dns_installed env
                        then (case resolve_handle_via_dns env handle of
                                (Inl e, t) \<Rightarrow> (JNull, t)
                              | (Inr d, t) \<Rightarrow> (d, t))
                        else (JNull, []))
      in if truthy did1 then (Inr did1, t1)
         else (case resolve_handle_via_well_known env handle of
                 (Inl e, t2) \<Rightarrow> (Inl e, t1 @ t2)
               | (Inr did2, t2) \<Rightarrow>
                   if truthy did2 then (Inr did2, t1 @ t2)
                   else (case resolve_handle_public_api env handle of
                           (r, t3) \<Rightarrow> (r, t1 @ t2 @ t3))))"

text \<open>The strategies a trace entered, in order.\<close>

fun invoked :: "event list \<Rightarrow> strategy list" where
  "invoked [] = []"
| "invoked (Invoke s # es) = s # invoked es"
| "invoked (e # es) = invoked es"

section \<open>DID documents and the PDS endpoint\<close>

definition fetch_did_document :: "env \<Rightarrow> string \<Rightarrow> json io" where
  "fetch_did_document env did =
     (if startswith did ''did:web:'' then
        let suffix = drop (length ''did:web:'') did;
            domain = map (\<lambda>c. if c = CHR '':'' then CHR ''/'' else c) suffix;
            url = ''https://'' @ domain @ ''/.well-known/did.json''
        in (except_return
              (and_then (requests_get env url [])
                 (\<lambda>r. if status_code r = 200 then r_json r else Inr JNull))
              JNull,
            [HttpGet url []])
      else if startswith did ''did:plc:'' \<or> startswith did ''did:plc'' then
        let url = ''https://plc.directory/'' @ did
        in (except_return
              (and_then (requests_get env url [])
                 (\<lambda>r. if status_code r = 200 then r_json r else Inr JNull))
              JNull,
            [HttpGet url []])
      else
        let url = ''https://uniresolver.io/1.0/identifiers/'' @ did
        in (except_return
              (and_then (requests_get env url [])
                 (\<lambda>r. if status_code r = 200
                      then and_then (r_json r)
                             (\<lambda>payload. case payload of
                                 JObj kvs \<Rightarrow>
                                   if map_of kvs ''didDocument'' \<noteq> None
                                   then Inr (lookup kvs ''didDocument'')
                                   else Inr JNull
                               | _ \<Rightarrow> Inr JNull)
                      else Inr JNull))
              JNull,
            [HttpGet url []]))"

text \<open>\<^verbatim>\<open>a or b\<close>\<close>

definition py_or :: "json \<Rightarrow> json \<Rightarrow> json" where
  "py_or a b = (if truthy a then a else b)"

text \<open>
  The first loop of \<^verbatim>\<open>extract_pds_from_did_doc\<close>; \<open>Inr None\<close> is the loop running to
  its end. \<^verbatim>\<open>s.get\<close> raises on a descriptor that is no dict, \<^verbatim>\<open>sid.endswith\<close> on an id
  that is no string.
\<close>

fun match_loop :: "string \<Rightarrow> json list \<Rightarrow> exn + string option" where
  "match_loop did [] = Inr None"
| "match_loop did (s # rest) =
     (case s of
        JObj kvs \<Rightarrow>
          (case (case map_of kvs ''id'' of None \<Rightarrow> JStr [] | Some v \<Rightarrow> v) of
             JStr sid \<Rightarrow>
               if endswith sid ''#atproto_pds'' \<or> sid = ''#atproto_pds''
                  \<or> sid = did @ ''#atproto_pds''
               then (case py_or (py_or (lookup kvs ''serviceEndpoint'')
                                       (lookup kvs ''serviceEndpointURL''))
                                (lookup kvs ''serviceEndpoint'') of
                       JStr ep \<Rightarrow>
                         if ep \<noteq> [] then Inr (Some (rstrip_slash ep))
                         else match_loop did rest
                     | _ \<Rightarrow> match_loop did rest)
               else match_loop did rest
           | _ \<Rightarrow> Inl AttributeError)
      | _ \<Rightarrow> Inl AttributeError)"

text \<open>The second loop: the first descriptor with an endpoint string starting \<^verbatim>\<open>http\<close>.\<close>

fun fallback_loop :: "json list \<Rightarrow> exn + string option" where
  "fallback_loop [] = Inr None"
| "fallback_loop (s # rest) =
     (case s of
        JObj kvs \<Rightarrow>
          (case py_or (lookup kvs ''serviceEndpoint'') (lookup kvs ''serviceEndpointURL'') of
             JStr ep \<Rightarrow>
               if startswith ep ''http'' then Inr (Some (rstrip_slash ep))
               else fallback_loop rest
           | _ \<Rightarrow> fallback_loop rest)
      | _ \<Rightarrow> Inl AttributeError)"

text \<open>
  \<^verbatim>\<open>svc = did_doc.get("service") or did_doc.get("services") or []\<close>
\<close>

definition service_list :: "(string \<times> json) list \<Rightarrow> json" where
  "service_list did_doc =
     py_or (py_or (lookup did_doc ''service'') (lookup did_doc ''services'')) (JArr [])"

text \<open>
  A truthy \<^verbatim>\<open>svc\<close> that is no list: iterating a dict or a string yields strings, which
  have no \<^verbatim>\<open>get\<close>; a number or \<^verbatim>\<open>True\<close> cannot be iterated.
\<close>

definition extract_pds_from_did_doc :: "(string \<times> json) list \<Rightarrow> string \<Rightarrow> exn + string option" where
  "extract_pds_from_did_doc did_doc did =
     (let svc = service_list did_doc in
      if \<not> truthy svc then Inr None
      else (case svc of
              JArr xs \<Rightarrow>
                (case match_loop did xs of
                   Inl e \<Rightarrow> Inl e
                 | Inr (Some ep) \<Rightarrow> Inr (Some ep)
                 | Inr None \<Rightarrow> fallback_loop xs)
            | JObj kvs \<Rightarrow> Inl AttributeError
            | JStr s \<Rightarrow> Inl AttributeError
            | _ \<Rightarrow> Inl TypeError))"

section \<open>Login\<close>

text \<open>
  \<^verbatim>\<open>try_login\<close> returns \<^verbatim>\<open>(None, {"error": str(e)})\<close> or \<^verbatim>\<open>(client, p)\<close>: here \<open>Inl\<close> of the
  error text, or \<open>Inr\<close> of the client and of \<^verbatim>\<open>p.get("did")\<close>.
\<close>

definition try_login ::
  "env \<Rightarrow> string option \<Rightarrow> string \<Rightarrow> string \<Rightarrow> (string + client \<times> string option) \<times> event list" where
  "try_login env client_base_url identifier app_password =
     (let base = (case client_base_url of
                    None \<Rightarrow> None
                  | Some u \<Rightarrow>
                      if u = [] then None
                      else if \<not> endswith u ''/xrpc'' then Some (rstrip_slash u @ ''/xrpc'')
                      else Some u)
      in (case client_login env base identifier app_password of
            LoginFailed msg \<Rightarrow> Inl msg
          | LoggedIn me profile_did \<Rightarrow> Inr (\<lparr>base_url = base, me_did = me\<rparr>, profile_did),
          [Login base identifier app_password]))"

definition str_truthy :: "string option \<Rightarrow> bool" where
  "str_truthy x = (case x of None \<Rightarrow> False | Some s \<Rightarrow> s \<noteq> [])"

text \<open>
  Sequencing of calls that leave a trace: an exception ends the sequence, and what was
  done before it stays in the trace.
\<close>

definition io_bind :: "'a io \<Rightarrow> ('a \<Rightarrow> 'b io) \<Rightarrow> 'b io" where
  "io_bind m f = (case m of
                    (Inl e, t) \<Rightarrow> (Inl e, t)
                  | (Inr x, t) \<Rightarrow> (case f x of (r, t') \<Rightarrow> (r, t @ t')))"

definition io_return :: "'a \<Rightarrow> 'a io" where
  "io_return x = (Inr x, [])"

text \<open>A call that cannot raise.\<close>

definition io_lift :: "'a \<times> event list \<Rightarrow> 'a io" where
  "io_lift m = (Inr (fst m), snd m)"

text \<open>
  Steps 2 to 4 of \<^verbatim>\<open>login_flow\<close>, which run once the quick login has failed: resolve the
  handle (a DID is taken as it is), fetch the DID document, find the PDS and log in
  there. \<^verbatim>\<open>did.startswith\<close> in \<^verbatim>\<open>fetch_did_document\<close> raises on a \<^verbatim>\<open>did\<close> that is no string,
  and \<^verbatim>\<open>did_doc.get\<close> in \<^verbatim>\<open>extract_pds_from_did_doc\<close> on a document that is no dict.
\<close>

definition login_via_pds :: "env \<Rightarrow> string \<Rightarrow> string \<Rightarrow> (client \<times> string) option io" where
  "login_via_pds env input_val app_password =
     io_bind (if startswith input_val ''did:'' then io_return (JStr input_val)
              else resolve_handle_to_did env input_val)
     (\<lambda>did.
       if \<not> truthy did then io_return None
       else case did of
         JStr d \<Rightarrow>
           io_bind (fetch_did_document env d)
           (\<lambda>did_doc.
             if \<not> truthy did_doc then io_return None
             else case did_doc of
               JObj doc \<Rightarrow>
                 io_bind (extract_pds_from_did_doc doc d, [])
                 (\<lambda>pds_host.
                   if \<not> str_truthy pds_host then io_return None
                   else
                     io_bind (io_lift (try_login env pds_host input_val app_password))
                     (\<lambda>attempt. case attempt of
                       Inr (cl, profile_did) \<Rightarrow>
                         io_return (Some (cl, if str_truthy (me_did cl)
                                              then the (me_did cl) else d))
                     | Inl err_text \<Rightarrow> io_return None))
             | _ \<Rightarrow> (Inl AttributeError, []))
       | _ \<Rightarrow> (Inl AttributeError, []))"

text \<open>
  \<open>login_flow env raw ins\<close>: \<open>ins\<close> are the lines the user will type; the result is the
  returned value (or the exception that escapes), the lines left and the trace.
  \<^verbatim>\<open>identifier_for_login\<close> is \<^verbatim>\<open>input_val\<close>.
\<close>

definition login_flow ::
  "env \<Rightarrow> string \<Rightarrow> string list \<Rightarrow> (exn + (client \<times> string) option) \<times> string list \<times> event list" where
  "login_flow env raw_input_handle ins =
     (let input_val0 = py_strip raw_input_handle in
      if input_val0 = [] then (Inr None, ins, [])
      else
        let input_val = (if \<not> startswith input_val0 ''did:'' \<and> CHR ''.'' \<notin> set input_val0
                         then maybe_assume_bsky input_val0 else input_val0)
        in case ins of
             [] \<Rightarrow> (Inl EOFError, [], [Ask PasswordPrompt])
           | line # rest \<Rightarrow>
               let app_password = py_strip line in
               if app_password = [] then (Inr None, rest, [Ask PasswordPrompt])
               else
                 let (result, trace) =
                   io_bind (io_lift (try_login env None input_val app_password))
                   (\<lambda>attempt. case attempt of
                     Inr (cl, profile_did) \<Rightarrow>
                       let user_did = (if str_truthy (me_did cl) then me_did cl else profile_did);
                           user_did = (if \<not> str_truthy user_did then profile_did else user_did)
                       in io_return (Some (cl, if str_truthy user_did then the user_did
                                               else input_val))
                   | Inl err_text \<Rightarrow> login_via_pds env input_val app_password)
                 in (result, rest, Ask PasswordPrompt # trace))"

section \<open>The follow record and the interactive loop\<close>

text \<open>
  \<open>create_record env client did\<close> tells whether the submission goes through; a failure
  is the exception \<^verbatim>\<open>follow_self\<close> catches.
\<close>

definition follow_self :: "env \<Rightarrow> client \<Rightarrow> string \<Rightarrow> bool \<times> event list" where
  "follow_self env cl user_did = (create_record env cl user_did, [CreateRecord user_did user_did])"

fun confirm :: "prompt \<Rightarrow> string list \<Rightarrow> (exn + bool) \<times> string list \<times> event list" where
  "confirm p [] = (Inl EOFError, [], [Ask p])"
| "confirm p (line # ins) =
     (let r = py_lower (py_strip line) in
      if r = ''y'' \<or> r = ''yes'' then (Inr True, ins, [Ask p])
      else if r = ''n'' \<or> r = ''no'' \<or> r = [] then (Inr False, ins, [Ask p])
      else (case confirm p ins of (b, ins', tr) \<Rightarrow> (b, ins', Ask p # tr)))"

lemma confirm_consumes: "confirm p ins = (r, ins', tr) \<Longrightarrow> length ins' \<le> length ins"
proof (induction ins arbitrary: r ins' tr)
  case Nil
  then show ?case by simp
next
  case (Cons line ins)
  show ?case
  proof (cases "confirm p ins")
    case (fields b ins2 tr2)
    with Cons.IH have "length ins2 \<le> length ins" by blast
    with Cons.prems fields show ?thesis
      by (auto simp: Let_def split: if_splits)
  qed
qed

lemma login_flow_consumes: "login_flow env h ins = (r, ins', tr) \<Longrightarrow> length ins' \<le> length ins"
  by (auto simp: login_flow_def Let_def split: if_splits list.splits prod.splits)

text \<open>\<open>after t m\<close>: the run \<open>m\<close>, coming after what left the trace \<open>t\<close>.\<close>

definition after :: "event list \<Rightarrow> 'a \<times> event list \<Rightarrow> 'a \<times> event list" where
  "after t m = (fst m, t @ snd m)"

text \<open>
  The loop of \<^verbatim>\<open>main\<close> over the lines typed. \<open>Inr ()\<close> is the loop left by \<^verbatim>\<open>break\<close>;
  \<^verbatim>\<open>input\<close> raises \<^verbatim>\<open>EOFError\<close> when no line is left.
\<close>

function main :: "env \<Rightarrow> string list \<Rightarrow> (exn + unit) \<times> event list" where
  "main env [] = (Inl EOFError, [Ask HandlePrompt])"
| "main env (line # ins1) =
     (let handle = py_strip line in
      if handle = [] then after [Ask HandlePrompt] (main env ins1)
      else
        (case login_flow env handle ins1 of
           (Inl e, ins2, t1) \<Rightarrow> (Inl e, Ask HandlePrompt # t1)
         | (Inr None, ins2, t1) \<Rightarrow>
             (case ins2 of
                [] \<Rightarrow> (Inl EOFError, Ask HandlePrompt # t1 @ [Ask TryAnotherHandle])
              | answer # ins3 \<Rightarrow>
                  let try_again = py_lower (py_strip answer) in
                  if try_again = ''y'' \<or> try_again = ''yes''
                  then after (Ask HandlePrompt # t1 @ [Ask TryAnotherHandle]) (main env ins3)
                  else (Inr (), Ask HandlePrompt # t1 @ [Ask TryAnotherHandle]))
         | (Inr (Some (cl, user_did)), ins2, t1) \<Rightarrow>
             (case confirm ConfirmProceed ins2 of
                (Inl e, ins3, t2) \<Rightarrow> (Inl e, Ask HandlePrompt # t1 @ t2)
              | (Inr proceed, ins3, t2) \<Rightarrow>
                  if \<not> proceed then
                    (case confirm ConfirmAnotherAccount ins3 of
                       (Inl e, ins4, t3) \<Rightarrow> (Inl e, Ask HandlePrompt # t1 @ t2 @ Logout # t3)
                     | (Inr again, ins4, t3) \<Rightarrow>
                         if again
                         then after (Ask HandlePrompt # t1 @ t2 @ Logout # t3) (main env ins4)
                         else (Inr (), Ask HandlePrompt # t1 @ t2 @ Logout # t3))
                  else
                    (case follow_self env cl user_did of
                       (ok, t3) \<Rightarrow>
                         (case confirm ConfirmFollowAnother ins3 of
                            (Inl e, ins4, t4) \<Rightarrow>
                              (Inl e, Ask HandlePrompt # t1 @ t2 @ t3 @ Logout # t4)
                          | (Inr again, ins4, t4) \<Rightarrow>
                              if again
                              then after (Ask HandlePrompt # t1 @ t2 @ t3 @ Logout # t4)
                                         (main env ins4)
                              else (Inr (), Ask HandlePrompt # t1 @ t2 @ t3 @ Logout # t4))))))"
  by pat_completeness auto
termination
  apply (relation "measure (\<lambda>(env, ins). length ins)")
   apply (auto dest!: login_flow_consumes[OF sym] confirm_consumes[OF sym])
  done

section \<open>Reading a trace\<close>

text \<open>The login attempts of a trace, in order.\<close>

fun login_attempts :: "event list \<Rightarrow> (string option \<times> string \<times> string) list" where
  "login_attempts [] = []"
| "login_attempts (Login base identifier password # es) =
     (base, identifier, password) # login_attempts es"
| "login_attempts (e # es) = login_attempts es"

text \<open>The value of \<^verbatim>\<open>identifier_for_login\<close> in \<^verbatim>\<open>login_flow\<close> (lines 240 to 251).\<close>

definition identifier_of :: "string \<Rightarrow> string" where
  "identifier_of raw =
     (let input_val = py_strip raw in
      if \<not> startswith input_val ''did:'' \<and> CHR ''.'' \<notin> set input_val
      then maybe_assume_bsky input_val else input_val)"

text \<open>The base URL \<^verbatim>\<open>try_login\<close> gives the client for a non-empty \<^verbatim>\<open>client_base_url\<close>.\<close>

definition xrpc_base :: "string \<Rightarrow> string" where
  "xrpc_base u = (if endswith u ''/xrpc'' then u else rstrip_slash u @ ''/xrpc'')"

text \<open>Step 2 of \<^verbatim>\<open>login_flow\<close>, as \<open>login_via_pds\<close> starts: a DID is taken as it is, a
  handle goes to the resolver.\<close>

definition discovered_did :: "env \<Rightarrow> string \<Rightarrow> json io" where
  "discovered_did env input_val =
     (if startswith input_val ''did:'' then io_return (JStr input_val)
      else resolve_handle_to_did env input_val)"

section \<open>The endpoint rule, stated apart from the code\<close>

text \<open>
  The rule \<open>extract_pds_from_did_doc\<close> is compared with, written with \<open>map_of\<close> and
  \<open>find\<close> and none of the code's helpers. The descriptors of a document are the list under
  \<^verbatim>\<open>service\<close>, or the one under \<^verbatim>\<open>services\<close> when the first is missing or empty. A
  descriptor's endpoint is its \<^verbatim>\<open>serviceEndpoint\<close> when that is a string, and its
  \<^verbatim>\<open>serviceEndpointURL\<close> when \<^verbatim>\<open>serviceEndpoint\<close> is missing or empty. Its identifier matches
  when it ends in \<^verbatim>\<open>#atproto_pds\<close>, is \<^verbatim>\<open>#atproto_pds\<close>, or is the DID followed by
  \<^verbatim>\<open>#atproto_pds\<close>. The rule: the first descriptor that matches by identifier and has a
  non-empty endpoint gives its endpoint; failing that, the first descriptor whose endpoint
  starts with \<^verbatim>\<open>http\<close>; the endpoint is returned without trailing slashes. A document is
  well formed when each of the two fields is missing, null or a list, and every descriptor
  is an object whose \<^verbatim>\<open>id\<close>, if it has one, is a string.
\<close>

definition string_field :: "(string \<times> json) list \<Rightarrow> string \<Rightarrow> string option" where
  "string_field kvs k = (case map_of kvs k of Some (JStr s) \<Rightarrow> Some s | _ \<Rightarrow> None)"

definition list_field :: "(string \<times> json) list \<Rightarrow> string \<Rightarrow> json list" where
  "list_field kvs k = (case map_of kvs k of Some (JArr xs) \<Rightarrow> xs | _ \<Rightarrow> [])"

definition descriptors :: "(string \<times> json) list \<Rightarrow> json list" where
  "descriptors did_doc =
     (if list_field did_doc ''service'' \<noteq> [] then list_field did_doc ''service''
      else list_field did_doc ''services'')"

definition endpoint_of :: "json \<Rightarrow> string option" where
  "endpoint_of s =
     (case s of
        JObj kvs \<Rightarrow>
          (case map_of kvs ''serviceEndpoint'' of
             None \<Rightarrow> string_field kvs ''serviceEndpointURL''
           | Some v \<Rightarrow>
               if truthy v then (case v of JStr ep \<Rightarrow> Some ep | _ \<Rightarrow> None)
               else string_field kvs ''serviceEndpointURL'')
      | _ \<Rightarrow> None)"

definition id_matches :: "string \<Rightarrow> json \<Rightarrow> bool" where
  "id_matches did s =
     (case s of
        JObj kvs \<Rightarrow>
          (case string_field kvs ''id'' of
             Some sid \<Rightarrow>
               suffix ''#atproto_pds'' sid \<or> sid = ''#atproto_pds'' \<or> sid = did @ ''#atproto_pds''
           | None \<Rightarrow> False)
      | _ \<Rightarrow> False)"

definition has_endpoint :: "json \<Rightarrow> bool" where
  "has_endpoint s = (case endpoint_of s of Some ep \<Rightarrow> ep \<noteq> [] | None \<Rightarrow> False)"

definition has_http_endpoint :: "json \<Rightarrow> bool" where
  "has_http_endpoint s = (case endpoint_of s of Some ep \<Rightarrow> prefix ''http'' ep | None \<Rightarrow> False)"

definition trimmed_endpoint :: "json option \<Rightarrow> string option" where
  "trimmed_endpoint found =
     (case found of None \<Rightarrow> None | Some s \<Rightarrow> map_option rstrip_slash (endpoint_of s))"

definition pds_endpoint_amended :: "string \<Rightarrow> json list \<Rightarrow> string option" where
  "pds_endpoint_amended did ds =
     (case find (\<lambda>s. id_matches did s \<and> has_endpoint s) ds of
        Some s \<Rightarrow> trimmed_endpoint (Some s)
      | None \<Rightarrow> trimmed_endpoint (find has_http_endpoint ds))"

definition well_formed_descriptor :: "json \<Rightarrow> bool" where
  "well_formed_descriptor s =
     (case s of
        JObj kvs \<Rightarrow>
          (case map_of kvs ''id'' of None \<Rightarrow> True | Some (JStr sid) \<Rightarrow> True | Some _ \<Rightarrow> False)
      | _ \<Rightarrow> False)"

definition list_or_absent :: "json option \<Rightarrow> bool" where
  "list_or_absent v =
     (case v of None \<Rightarrow> True | Some JNull \<Rightarrow> True | Some (JArr xs) \<Rightarrow> True | Some _ \<Rightarrow> False)"

definition well_formed_document :: "(string \<times> json) list \<Rightarrow> bool" where
  "well_formed_document did_doc =
     (list_or_absent (map_of did_doc ''service'')
      \<and> list_or_absent (map_of did_doc ''services'')
      \<and> list_all well_formed_descriptor (descriptors did_doc))"

section \<open>Example worlds\<close>

text \<open>
  The second end-to-end scenario of the specification: the default login fails, DNS
  times out, the well-known file of \<^verbatim>\<open>example.com\<close> holds \<^verbatim>\<open>did:plc:xyz\<close>, the PLC directory
  serves a document with a PDS entry, and the login against that PDS succeeds with an
  identity that reports no DID of its own.
\<close>

definition scenario_env :: env where
  "scenario_env =
     \<lparr>dns_installed = True,
      dns_resolve = (\<lambda>query. Inl Timeout),
      http_get = (\<lambda>url params.
         if url = ''https://example.com/.well-known/atproto-did''
         then Inr \<lparr>status_code = 200, text_body = ''did:plc:xyz'', json_body = None\<rparr>
         else if url = ''https://plc.directory/did:plc:xyz''
         then Inr \<lparr>status_code = 200, text_body = [],
                   json_body = Some (JObj [(''id'', JStr ''did:plc:xyz''),
                     (''service'', JArr [JObj [(''id'', JStr ''#atproto_pds''),
                        (''serviceEndpoint'', JStr ''https://pds.example/'')]])])\<rparr>
         else Inl NetworkError),
      client_login = (\<lambda>base identifier password.
         if base = Some ''https://pds.example/xrpc'' then LoggedIn None None
         else LoginFailed ''401''),
      create_record = (\<lambda>cl did. True)\<rparr>"

text \<open>
  A universal resolver that answers \<^verbatim>\<open>did:key:z6Mk\<close> with a bare DID document, not wrapped
  under \<^verbatim>\<open>didDocument\<close>.
\<close>

definition bare_doc_env :: env where
  "bare_doc_env =
     \<lparr>dns_installed = False,
      dns_resolve = (\<lambda>query. Inl NetworkError),
      http_get = (\<lambda>url params.
         if url = ''https://uniresolver.io/1.0/identifiers/did:key:z6Mk''
         then Inr \<lparr>status_code = 200, text_body = [],
                   json_body = Some (JObj [(''id'', JStr ''did:key:z6Mk''),
                     (''service'', JArr [JObj [(''id'', JStr ''#atproto_pds''),
                        (''serviceEndpoint'', JStr ''https://pds.example'')]])])\<rparr>
         else Inl NetworkError),
      client_login = (\<lambda>base identifier password. LoginFailed ''401''),
      create_record = (\<lambda>cl did. False)\<rparr>"

text \<open>
  A PLC directory whose document for \<^verbatim>\<open>did:plc:abc\<close> names a PDS endpoint that already ends
  in \<^verbatim>\<open>/xrpc\<close>; every login fails.
\<close>

definition xrpc_env :: env where
  "xrpc_env =
     \<lparr>dns_installed = False,
      dns_resolve = (\<lambda>query. Inl NetworkError),
      http_get = (\<lambda>url params.
         if url = ''https://plc.directory/did:plc:abc''
         then Inr \<lparr>status_code = 200, text_body = [],
                   json_body = Some (JObj [(''service'', JArr [JObj [(''id'', JStr ''#atproto_pds''),
                        (''serviceEndpoint'', JStr ''https://pds.example/xrpc'')]])])\<rparr>
         else Inl NetworkError),
      client_login = (\<lambda>base identifier password. LoginFailed ''401''),
      create_record = (\<lambda>cl did. False)\<rparr>"

text \<open>A world with no network: every lookup and every login fails.\<close>

definition offline_env :: env where
  "offline_env =
     \<lparr>dns_installed = False,
      dns_resolve = (\<lambda>query. Inl NetworkError),
      http_get = (\<lambda>url params. Inl NetworkError),
      client_login = (\<lambda>base identifier password. LoginFailed ''network unreachable''),
      create_record = (\<lambda>cl did. False)\<rparr>"

section \<open>Normalisation\<close>

text \<open>
  Claim C6. A handle that is not DID-prefixed and has no dot gets the suffix
  \<^verbatim>\<open>.bsky.social\<close> appended once; a handle that has a dot or is DID-prefixed is returned
  as it is; and \<open>maybe_assume_bsky\<close> is idempotent, so the suffix is never appended twice.
\<close>

theorem maybe_assume_bsky_once:
  "(\<not> startswith h ''did:'' \<and> CHR ''.'' \<notin> set h \<longrightarrow> maybe_assume_bsky h = h @ ''.bsky.social'')
   \<and> (startswith h ''did:'' \<or> CHR ''.'' \<in> set h \<longrightarrow> maybe_assume_bsky h = h)
   \<and> maybe_assume_bsky (maybe_assume_bsky h) = maybe_assume_bsky h"
  by (simp add: maybe_assume_bsky_def)

theorem maybe_assume_bsky_once_witness:
  "maybe_assume_bsky ''alice'' = ''alice.bsky.social''
   \<and> maybe_assume_bsky ''alice.bsky.social'' = ''alice.bsky.social''
   \<and> maybe_assume_bsky (maybe_assume_bsky ''alice'') = ''alice.bsky.social''"
  using maybe_assume_bsky_once [of "''alice''"] maybe_assume_bsky_once [of "''alice.bsky.social''"]
  by (simp add: startswith_def)

section \<open>The resolution cascade\<close>

lemma invoked_append: "invoked (xs @ ys) = invoked xs @ invoked ys"
  by (induction xs rule: invoked.induct) simp_all

lemma invoked_dns: "invoked (snd (resolve_handle_via_dns env h)) = [DnsTxt]"
  by (simp add: resolve_handle_via_dns_def Let_def)

lemma invoked_well_known: "invoked (snd (resolve_handle_via_well_known env h)) = [WellKnown]"
  by (simp add: resolve_handle_via_well_known_def Let_def split: sum.splits)

lemma invoked_public_api: "invoked (snd (resolve_handle_public_api env h)) = [PublicResolver]"
  by (simp add: resolve_handle_public_api_def Let_def)

text \<open>
  Claim C1. \<open>resolve_handle_to_did\<close> enters the strategies in the order DNS TXT,
  well-known, public resolver (DNS is left out when the DNS library is not installed).
  A truthy DNS answer is returned with no other strategy entered; otherwise a truthy
  well-known answer is returned with the public resolver not entered; otherwise the result
  is the public resolver's. The result is \<^verbatim>\<open>None\<close> only if DNS gave nothing, the well-known
  fetch gave nothing and the public resolver returned \<^verbatim>\<open>None\<close>. (An exception of the
  well-known strategy escapes before the public resolver is entered.)
\<close>

theorem resolve_handle_to_did_order:
  "(let h = strip_at handle;
        dns = (if dns_installed env
               then (case fst (resolve_handle_via_dns env h) of Inr v \<Rightarrow> v | Inl e \<Rightarrow> JNull)
               else JNull);
        entered = (if dns_installed env then [DnsTxt] else []);
        wk = fst (resolve_handle_via_well_known env h);
        pub = fst (resolve_handle_public_api env h);
        (r, tr) = resolve_handle_to_did env handle
    in (truthy dns \<longrightarrow> r = Inr dns \<and> invoked tr = [DnsTxt])
     \<and> (\<not> truthy dns \<longrightarrow>
          (\<forall>w. wk = Inr w \<and> truthy w \<longrightarrow> r = Inr w \<and> invoked tr = entered @ [WellKnown])
        \<and> (\<forall>w. wk = Inr w \<and> \<not> truthy w \<longrightarrow>
               r = pub \<and> invoked tr = entered @ [WellKnown, PublicResolver])
        \<and> (\<forall>e. wk = Inl e \<longrightarrow> r = Inl e \<and> invoked tr = entered @ [WellKnown]))
     \<and> (r = Inr JNull \<longrightarrow>
          \<not> truthy dns \<and> (\<exists>w. wk = Inr w \<and> \<not> truthy w) \<and> pub = Inr JNull))"
proof -
  define h where "h = strip_at handle"
  obtain rd td where d: "resolve_handle_via_dns env h = (rd, td)" by force
  obtain rw tw where w: "resolve_handle_via_well_known env h = (rw, tw)" by force
  obtain rp tp where p: "resolve_handle_public_api env h = (rp, tp)" by force
  have id: "invoked td = [DnsTxt]" using invoked_dns[of env h] d by simp
  have iw: "invoked tw = [WellKnown]" using invoked_well_known[of env h] w by simp
  have ip: "invoked tp = [PublicResolver]" using invoked_public_api[of env h] p by simp
  show ?thesis
    unfolding resolve_handle_to_did_def Let_def h_def[symmetric]
    using id iw ip
    by (cases rd; cases rw; auto simp: d w p invoked_append)
qed

theorem resolve_handle_to_did_order_witness:
  "resolve_handle_to_did scenario_env ''bob.example.com'' =
     (Inr (JStr ''did:plc:xyz''),
      [Invoke DnsTxt, DnsQuery ''_atproto.example.com'',
       Invoke WellKnown, HttpGet ''https://example.com/.well-known/atproto-did'' []])
   \<and> invoked (snd (resolve_handle_to_did scenario_env ''bob.example.com'')) = [DnsTxt, WellKnown]"
  using resolve_handle_to_did_order [of "''bob.example.com''" scenario_env]
  by (simp add: resolve_handle_to_did_def resolve_handle_via_dns_def
      resolve_handle_via_well_known_def scenario_env_def strip_at_def startswith_def
      split1_def item_def and_then_def except_return_def requests_get_def py_strip_def
      is_space_def Let_def)

text \<open>
  Claim C5, at the handle \<^verbatim>\<open>a/b.c\<close>: the well-known strategy splits the part before the
  slash at a dot it does not have, and the \<^verbatim>\<open>IndexError\<close> of \<^verbatim>\<open>[1]\<close> escapes the function,
  whatever the network answers. In a run of \<open>main\<close> without network the exception leaves
  \<open>login_flow\<close> and the loop.
\<close>

theorem well_known_slash_raises:
  "resolve_handle_via_well_known env ''a/b.c'' = (Inl IndexError, [Invoke WellKnown])
   \<and> main offline_env [''a/b.c'', ''app-password''] =
     (Inl IndexError,
      [Ask HandlePrompt, Ask PasswordPrompt, Login None ''a/b.c'' ''app-password'',
       Invoke WellKnown])"
  by (simp add: login_flow_def login_via_pds_def io_bind_def io_return_def io_lift_def
      try_login_def resolve_handle_to_did_def resolve_handle_via_well_known_def
      offline_env_def strip_at_def startswith_def
      split1_def item_def and_then_def py_strip_def is_space_def Let_def)

section \<open>DID documents\<close>

lemma plc_colon_prefix: "startswith did ''did:plc:'' \<Longrightarrow> startswith did ''did:plc''"
  unfolding startswith_def by (auto simp: prefix_def)

lemma fetch_other_method:
  assumes "\<not> startswith did ''did:web:''" and "\<not> startswith did ''did:plc''"
  shows "fst (fetch_did_document env did) =
     (case http_get env (''https://uniresolver.io/1.0/identifiers/'' @ did) [] of
        Inl te \<Rightarrow> Inr JNull
      | Inr rsp \<Rightarrow>
          if status_code rsp = 200
          then (case json_body rsp of
                  Some (JObj kvs) \<Rightarrow>
                    (case map_of kvs ''didDocument'' of Some v \<Rightarrow> Inr v | None \<Rightarrow> Inr JNull)
                | _ \<Rightarrow> Inr JNull)
          else Inr JNull)"
proof -
  from assms plc_colon_prefix have "\<not> startswith did ''did:plc:''" by blast
  with assms show ?thesis
    by (simp add: fetch_did_document_def Let_def except_return_def and_then_def
        requests_get_def r_json_def lookup_def
        split: sum.splits option.splits json.splits)
qed

text \<open>
  Claim C10. For a DID that starts neither with \<^verbatim>\<open>did:web:\<close> nor with \<^verbatim>\<open>did:plc\<close>,
  \<open>fetch_did_document\<close> always returns; it returns a value other than \<^verbatim>\<open>None\<close> only when the
  universal resolver answered 200 with a JSON object that has the key \<^verbatim>\<open>didDocument\<close>, and
  then it returns the value under that key; a 200 answer whose body has no such key, a
  bare DID document included, gives \<^verbatim>\<open>None\<close>.
\<close>

theorem fetch_other_method_unwraps:
  "\<not> startswith did ''did:web:'' \<and> \<not> startswith did ''did:plc'' \<Longrightarrow>
   (let resp = http_get env (''https://uniresolver.io/1.0/identifiers/'' @ did) [];
        r = fst (fetch_did_document env did)
    in (\<exists>v. r = Inr v)
     \<and> (\<forall>v. r = Inr v \<and> v \<noteq> JNull \<longrightarrow>
            (\<exists>rsp kvs. resp = Inr rsp \<and> status_code rsp = 200
               \<and> json_body rsp = Some (JObj kvs) \<and> map_of kvs ''didDocument'' = Some v))
     \<and> (\<forall>rsp kvs v. resp = Inr rsp \<and> status_code rsp = 200
            \<and> json_body rsp = Some (JObj kvs) \<and> map_of kvs ''didDocument'' = Some v \<longrightarrow>
            r = Inr v)
     \<and> (\<forall>rsp j. resp = Inr rsp \<and> status_code rsp = 200 \<and> json_body rsp = Some j
            \<and> (\<forall>kvs. j = JObj kvs \<longrightarrow> map_of kvs ''didDocument'' = None) \<longrightarrow>
            r = Inr JNull))"
proof -
  assume "\<not> startswith did ''did:web:'' \<and> \<not> startswith did ''did:plc''"
  then have eq: "fst (fetch_did_document env did) =
     (case http_get env (''https://uniresolver.io/1.0/identifiers/'' @ did) [] of
        Inl te \<Rightarrow> Inr JNull
      | Inr rsp \<Rightarrow>
          if status_code rsp = 200
          then (case json_body rsp of
                  Some (JObj kvs) \<Rightarrow>
                    (case map_of kvs ''didDocument'' of Some v \<Rightarrow> Inr v | None \<Rightarrow> Inr JNull)
                | _ \<Rightarrow> Inr JNull)
          else Inr JNull)"
    using fetch_other_method by blast
  show ?thesis
    unfolding Let_def eq
    by (auto split: sum.splits option.splits json.splits)
qed

theorem fetch_other_method_unwraps_witness:
  "\<not> startswith ''did:key:z6Mk'' ''did:web:'' \<and> \<not> startswith ''did:key:z6Mk'' ''did:plc''
   \<and> fetch_did_document bare_doc_env ''did:key:z6Mk'' =
       (Inr JNull, [HttpGet ''https://uniresolver.io/1.0/identifiers/did:key:z6Mk'' []])"
  using fetch_other_method_unwraps [of "''did:key:z6Mk''" bare_doc_env]
  by (simp add: fetch_did_document_def Let_def except_return_def and_then_def requests_get_def
      r_json_def lookup_def startswith_def bare_doc_env_def)

section \<open>The PDS endpoint\<close>

lemma rstrip_slash_no_slash: "\<not> endswith (rstrip_slash s) ''/''"
proof -
  let ?d = "dropWhile (\<lambda>c. c = CHR ''/'') (rev s)"
  have "?d = [] \<or> hd ?d \<noteq> CHR ''/''"
    using hd_dropWhile[of "\<lambda>c. c = CHR ''/''" "rev s"] by blast
  then show ?thesis
  proof
    assume "?d = []"
    then have "rstrip_slash s = []" unfolding rstrip_slash_def by (simp only: rev.simps)
    then show ?thesis by (simp add: endswith_def)
  next
    assume h: "hd ?d \<noteq> CHR ''/''"
    show ?thesis
    proof
      assume "endswith (rstrip_slash s) ''/''"
      then have "prefix ''/'' ?d"
        by (simp add: endswith_def rstrip_slash_def suffix_to_prefix)
      then have "hd ?d = CHR ''/''" by (auto simp: prefix_def)
      with h show False by simp
    qed
  qed
qed


lemma match_loop_trimmed: "match_loop did xs = Inr (Some ep) \<Longrightarrow> \<exists>e. ep = rstrip_slash e"
  by (induction xs) (auto split: json.splits option.splits if_splits)

lemma fallback_loop_trimmed: "fallback_loop xs = Inr (Some ep) \<Longrightarrow> \<exists>e. ep = rstrip_slash e"
  by (induction xs) (auto split: json.splits option.splits if_splits)

lemma extract_trimmed:
  "extract_pds_from_did_doc did_doc did = Inr (Some ep) \<Longrightarrow> \<exists>e. ep = rstrip_slash e"
  by (auto simp: extract_pds_from_did_doc_def Let_def
      dest: match_loop_trimmed fallback_loop_trimmed
      split: if_splits json.splits sum.splits option.splits)

lemma service_list_descriptors:
  assumes "list_or_absent (map_of did_doc ''service'')"
    and "list_or_absent (map_of did_doc ''services'')"
  shows "service_list did_doc = JArr (descriptors did_doc)"
proof -
  have a: "lookup did_doc ''service'' = JNull \<or> (\<exists>xs. lookup did_doc ''service'' = JArr xs)"
    using assms(1)
    by (auto simp: list_or_absent_def lookup_def split: option.splits json.splits)
  have b: "lookup did_doc ''services'' = JNull \<or> (\<exists>xs. lookup did_doc ''services'' = JArr xs)"
    using assms(2)
    by (auto simp: list_or_absent_def lookup_def split: option.splits json.splits)
  from a b show ?thesis
    by (auto simp: service_list_def py_or_def descriptors_def list_field_def lookup_def
        split: option.splits json.splits)
qed

lemma match_loop_step:
  assumes "well_formed_descriptor s"
  shows "match_loop did (s # xs) =
           (if id_matches did s \<and> has_endpoint s then Inr (trimmed_endpoint (Some s))
            else match_loop did xs)"
proof -
  from assms obtain kvs where s: "s = JObj kvs"
    by (cases s) (simp_all add: well_formed_descriptor_def)
  show ?thesis
  proof (cases "map_of kvs ''id''")
    case None
    then show ?thesis using s
      by (simp add: id_matches_def string_field_def endswith_def)
  next
    case (Some v)
    with assms s obtain sid where v: "v = JStr sid"
      by (cases v) (simp_all add: well_formed_descriptor_def)
    show ?thesis using s Some v
      by (auto simp: id_matches_def has_endpoint_def endswith_def endpoint_of_def
          string_field_def trimmed_endpoint_def py_or_def lookup_def
          split: json.splits option.splits if_splits)
  qed
qed

lemma match_loop_amended:
  "list_all well_formed_descriptor xs \<Longrightarrow>
   match_loop did xs = Inr (trimmed_endpoint (find (\<lambda>s. id_matches did s \<and> has_endpoint s) xs))"
proof (induction xs)
  case Nil
  then show ?case by (simp add: trimmed_endpoint_def)
next
  case (Cons s xs)
  then show ?case by (simp add: match_loop_step del: match_loop.simps)
qed

lemma fallback_loop_step:
  assumes "well_formed_descriptor s"
  shows "fallback_loop (s # xs) =
           (if has_http_endpoint s then Inr (trimmed_endpoint (Some s)) else fallback_loop xs)"
proof -
  from assms obtain kvs where s: "s = JObj kvs"
    by (cases s) (simp_all add: well_formed_descriptor_def)
  show ?thesis using s
    by (auto simp: has_http_endpoint_def endpoint_of_def string_field_def startswith_def
        trimmed_endpoint_def py_or_def lookup_def
        split: json.splits option.splits if_splits)
qed

lemma fallback_loop_amended:
  "list_all well_formed_descriptor xs \<Longrightarrow>
   fallback_loop xs = Inr (trimmed_endpoint (find has_http_endpoint xs))"
proof (induction xs)
  case Nil
  then show ?case by (simp add: trimmed_endpoint_def)
next
  case (Cons s xs)
  then show ?case by (simp add: fallback_loop_step del: fallback_loop.simps)
qed

lemma find_match_trimmed:
  "find (\<lambda>s. id_matches did s \<and> has_endpoint s) xs = Some s \<Longrightarrow>
   \<exists>ep. trimmed_endpoint (Some s) = Some ep"
  by (auto simp: find_Some_iff has_endpoint_def trimmed_endpoint_def split: option.splits)

lemma extract_well_formed:
  assumes "well_formed_document did_doc"
  shows "extract_pds_from_did_doc did_doc did = Inr (pds_endpoint_amended did (descriptors did_doc))"
proof -
  let ?ds = "descriptors did_doc"
  from assms have sl: "service_list did_doc = JArr ?ds" and wf: "list_all well_formed_descriptor ?ds"
    by (simp_all add: well_formed_document_def service_list_descriptors)
  show ?thesis
  proof (cases "find (\<lambda>s. id_matches did s \<and> has_endpoint s) ?ds")
    case None
    with sl wf show ?thesis
      by (cases ?ds)
         (simp_all add: extract_pds_from_did_doc_def pds_endpoint_amended_def match_loop_amended
            fallback_loop_amended trimmed_endpoint_def
            del: match_loop.simps fallback_loop.simps)
  next
    case (Some s)
    then obtain ep where "trimmed_endpoint (Some s) = Some ep"
      using find_match_trimmed by blast
    with Some sl wf show ?thesis
      by (cases ?ds)
         (simp_all add: extract_pds_from_did_doc_def pds_endpoint_amended_def match_loop_amended
            del: match_loop.simps fallback_loop.simps)
  qed
qed

text \<open>
  Claim C4, as amended. On a well-formed document \<open>extract_pds_from_did_doc\<close> returns
  the endpoint, without trailing slashes, of the first descriptor that matches
  \<^verbatim>\<open>#atproto_pds\<close> by identifier and has a non-empty endpoint string; when there is none, of
  the first descriptor whose endpoint string starts with \<^verbatim>\<open>http\<close>; and \<^verbatim>\<open>None\<close> when there
  is neither. A document with neither \<^verbatim>\<open>service\<close> nor \<^verbatim>\<open>services\<close> gives \<^verbatim>\<open>None\<close>, and no
  endpoint returned ends in a slash.
\<close>

theorem extract_pds_amended_rule:
  "(well_formed_document did_doc \<longrightarrow>
      extract_pds_from_did_doc did_doc did = Inr (pds_endpoint_amended did (descriptors did_doc)))
   \<and> (map_of did_doc ''service'' = None \<and> map_of did_doc ''services'' = None \<longrightarrow>
      extract_pds_from_did_doc did_doc did = Inr None)
   \<and> (\<forall>ep. extract_pds_from_did_doc did_doc did = Inr (Some ep) \<longrightarrow> \<not> endswith ep ''/'')"
proof (intro conjI impI allI)
  assume "well_formed_document did_doc"
  then show "extract_pds_from_did_doc did_doc did
               = Inr (pds_endpoint_amended did (descriptors did_doc))"
    by (rule extract_well_formed)
next
  assume "map_of did_doc ''service'' = None \<and> map_of did_doc ''services'' = None"
  then show "extract_pds_from_did_doc did_doc did = Inr None"
    by (simp add: extract_pds_from_did_doc_def service_list_def py_or_def lookup_def)
next
  fix ep
  assume "extract_pds_from_did_doc did_doc did = Inr (Some ep)"
  then obtain e where "ep = rstrip_slash e" using extract_trimmed by blast
  then show "\<not> endswith ep ''/''" using rstrip_slash_no_slash by simp
qed

theorem extract_pds_amended_rule_witness:
  "well_formed_document
     [(''service'', JArr [JObj [(''id'', JStr ''did:plc:abc#atproto_pds''),
        (''serviceEndpoint'', JStr ''https://pds.example/'')]])]
   \<and> extract_pds_from_did_doc
       [(''service'', JArr [JObj [(''id'', JStr ''did:plc:abc#atproto_pds''),
          (''serviceEndpoint'', JStr ''https://pds.example/'')]])] ''did:plc:abc''
     = Inr (Some ''https://pds.example'')
   \<and> pds_endpoint_amended ''did:plc:abc''
       (descriptors [(''service'', JArr [JObj [(''id'', JStr ''did:plc:abc#atproto_pds''),
          (''serviceEndpoint'', JStr ''https://pds.example/'')]])]) = Some ''https://pds.example''
   \<and> extract_pds_from_did_doc [(''id'', JStr ''did:plc:abc'')] ''did:plc:abc'' = Inr None
   \<and> \<not> endswith ''https://pds.example'' ''/''"
  using extract_pds_amended_rule [of
      "[(''service'', JArr [JObj [(''id'', JStr ''did:plc:abc#atproto_pds''),
          (''serviceEndpoint'', JStr ''https://pds.example/'')]])]" "''did:plc:abc''"]
    extract_pds_amended_rule [of "[(''id'', JStr ''did:plc:abc'')]" "''did:plc:abc''"]
  by (simp add: well_formed_document_def list_or_absent_def descriptors_def list_field_def
      well_formed_descriptor_def pds_endpoint_amended_def id_matches_def has_endpoint_def
      endpoint_of_def string_field_def trimmed_endpoint_def rstrip_slash_def
      suffix_to_prefix endswith_def)

text \<open>
  Claim C4 as stated fails. A descriptor that matches by identifier but whose endpoint is
  an object is passed over, and the endpoint returned is that of a descriptor that does
  not match; and on a service list that holds a string the function raises
  \<^verbatim>\<open>AttributeError\<close> and returns nothing.
\<close>

theorem extract_skips_matching_descriptor:
  "id_matches ''did:plc:abc''
     (JObj [(''id'', JStr ''#atproto_pds''),
            (''serviceEndpoint'', JObj [(''uri'', JStr ''https://pds.example'')])])
   \<and> \<not> id_matches ''did:plc:abc''
     (JObj [(''id'', JStr ''#atproto_labeler''),
            (''serviceEndpoint'', JStr ''https://labeler.example/'')])
   \<and> extract_pds_from_did_doc
       [(''service'', JArr
          [JObj [(''id'', JStr ''#atproto_pds''),
                 (''serviceEndpoint'', JObj [(''uri'', JStr ''https://pds.example'')])],
           JObj [(''id'', JStr ''#atproto_labeler''),
                 (''serviceEndpoint'', JStr ''https://labeler.example/'')]])]
       ''did:plc:abc''
     = Inr (Some ''https://labeler.example'')
   \<and> extract_pds_from_did_doc [(''service'', JArr [JStr ''#atproto_pds''])] ''did:plc:abc''
     = Inl AttributeError"
  by (simp add: id_matches_def string_field_def extract_pds_from_did_doc_def service_list_def
      py_or_def lookup_def startswith_def endswith_def suffix_to_prefix rstrip_slash_def)

section \<open>The login flow\<close>

lemma login_attempts_append:
  "login_attempts (xs @ ys) = login_attempts xs @ login_attempts ys"
  by (induction xs rule: login_attempts.induct) simp_all

lemma no_login_dns: "login_attempts (snd (resolve_handle_via_dns env h)) = []"
  by (simp add: resolve_handle_via_dns_def Let_def)

lemma no_login_well_known: "login_attempts (snd (resolve_handle_via_well_known env h)) = []"
  by (simp add: resolve_handle_via_well_known_def Let_def split: sum.splits)

lemma no_login_public_api: "login_attempts (snd (resolve_handle_public_api env h)) = []"
  by (simp add: resolve_handle_public_api_def Let_def)

lemma no_login_resolve: "login_attempts (snd (resolve_handle_to_did env h)) = []"
proof -
  obtain rd td where d: "resolve_handle_via_dns env (strip_at h) = (rd, td)" by force
  obtain rw tw where w: "resolve_handle_via_well_known env (strip_at h) = (rw, tw)" by force
  obtain rp tp where p: "resolve_handle_public_api env (strip_at h) = (rp, tp)" by force
  have "login_attempts td = []" using no_login_dns[of env "strip_at h"] d by simp
  moreover have "login_attempts tw = []" using no_login_well_known[of env "strip_at h"] w by simp
  moreover have "login_attempts tp = []" using no_login_public_api[of env "strip_at h"] p by simp
  ultimately show ?thesis
    unfolding resolve_handle_to_did_def Let_def
    by (cases rd; cases rw; auto simp: d w p login_attempts_append)
qed

lemma no_login_fetch: "login_attempts (snd (fetch_did_document env d)) = []"
  by (simp add: fetch_did_document_def Let_def)

lemma no_login_discovered: "login_attempts (snd (discovered_did env iv)) = []"
  by (simp add: discovered_did_def io_return_def no_login_resolve)

lemma try_login_some:
  "pds \<noteq> [] \<Longrightarrow> try_login env (Some pds) i p =
     (case client_login env (Some (xrpc_base pds)) i p of
        LoginFailed msg \<Rightarrow> Inl msg
      | LoggedIn me pd \<Rightarrow> Inr (\<lparr>base_url = Some (xrpc_base pds), me_did = me\<rparr>, pd),
      [Login (Some (xrpc_base pds)) i p])"
  by (simp add: try_login_def xrpc_base_def Let_def split: login_result.splits)

lemma login_via_pds_outcome:
  assumes "login_via_pds env iv pw = (r, t)"
  shows "(login_attempts t = [] \<and> (r = Inr None \<or> (\<exists>e. r = Inl e))
          \<and> \<not> (\<exists>d doc pds. fst (discovered_did env iv) = Inr (JStr d) \<and> d \<noteq> []
                 \<and> fst (fetch_did_document env d) = Inr (JObj doc) \<and> doc \<noteq> []
                 \<and> extract_pds_from_did_doc doc d = Inr (Some pds) \<and> pds \<noteq> []))
       \<or> (\<exists>d doc pds. fst (discovered_did env iv) = Inr (JStr d) \<and> d \<noteq> []
            \<and> fst (fetch_did_document env d) = Inr (JObj doc) \<and> doc \<noteq> []
            \<and> extract_pds_from_did_doc doc d = Inr (Some pds) \<and> pds \<noteq> []
            \<and> login_attempts t = [(Some (xrpc_base pds), iv, pw)]
            \<and> r = (case client_login env (Some (xrpc_base pds)) iv pw of
                     LoginFailed msg \<Rightarrow> Inr None
                   | LoggedIn me pd \<Rightarrow>
                       Inr (Some (\<lparr>base_url = Some (xrpc_base pds), me_did = me\<rparr>,
                                  if str_truthy me then the me else d))))"
proof -
  obtain rd t2 where res: "discovered_did env iv = (rd, t2)" by force
  have n2: "login_attempts t2 = []" using no_login_discovered[of env iv] res by simp
  have unf: "login_via_pds env iv pw = io_bind (rd, t2)
     (\<lambda>did.
       if \<not> truthy did then io_return None
       else case did of
         JStr d \<Rightarrow>
           io_bind (fetch_did_document env d)
           (\<lambda>did_doc.
             if \<not> truthy did_doc then io_return None
             else case did_doc of
               JObj doc \<Rightarrow>
                 io_bind (extract_pds_from_did_doc doc d, [])
                 (\<lambda>pds_host.
                   if \<not> str_truthy pds_host then io_return None
                   else
                     io_bind (io_lift (try_login env pds_host iv pw))
                     (\<lambda>attempt. case attempt of
                       Inr (cl, profile_did) \<Rightarrow>
                         io_return (Some (cl, if str_truthy (me_did cl)
                                              then the (me_did cl) else d))
                     | Inl err_text \<Rightarrow> io_return None))
             | _ \<Rightarrow> (Inl AttributeError, []))
       | _ \<Rightarrow> (Inl AttributeError, []))"
    unfolding login_via_pds_def res[symmetric] discovered_did_def by (rule refl)
  show ?thesis
  proof (cases rd)
    case (Inl e)
    with assms unf n2 res show ?thesis by (auto simp: io_bind_def)
  next
    case (Inr did)
    show ?thesis
    proof (cases "\<exists>d. did = JStr d \<and> d \<noteq> []")
      case False
      with assms unf n2 res Inr show ?thesis
        by (cases did) (auto simp: io_bind_def io_return_def split: if_splits)
    next
      case True
      then obtain d where d: "did = JStr d" "d \<noteq> []" by blast
      obtain rf t3 where f: "fetch_did_document env d = (rf, t3)" by force
      have n3: "login_attempts t3 = []" using no_login_fetch[of env d] f by simp
      show ?thesis
      proof (cases "\<exists>doc. rf = Inr (JObj doc) \<and> doc \<noteq> []")
        case False
        have "login_attempts t = [] \<and> (r = Inr None \<or> (\<exists>e. r = Inl e))"
        proof (cases rf)
          case (Inl e)
          with assms unf n2 n3 Inr d f show ?thesis
            by (auto simp: io_bind_def io_return_def login_attempts_append)
        next
          case rfr: (Inr did_doc)
          with False assms unf n2 n3 Inr d f show ?thesis
            by (cases did_doc) (auto simp: io_bind_def io_return_def login_attempts_append split: if_splits)
        qed
        moreover have "\<not> (\<exists>d doc pds. fst (discovered_did env iv) = Inr (JStr d) \<and> d \<noteq> []
                 \<and> fst (fetch_did_document env d) = Inr (JObj doc) \<and> doc \<noteq> []
                 \<and> extract_pds_from_did_doc doc d = Inr (Some pds) \<and> pds \<noteq> [])"
          using False res Inr d f by auto
        ultimately show ?thesis by blast
      next
        case True
        then obtain doc where doc: "rf = Inr (JObj doc)" "doc \<noteq> []" by blast
        show ?thesis
        proof (cases "\<exists>pds. extract_pds_from_did_doc doc d = Inr (Some pds) \<and> pds \<noteq> []")
          case False
          have "login_attempts t = [] \<and> (r = Inr None \<or> (\<exists>e. r = Inl e))"
          proof (cases "extract_pds_from_did_doc doc d")
            case (Inl e)
            with assms unf n2 n3 Inr d f doc show ?thesis
              by (auto simp: io_bind_def io_return_def login_attempts_append)
          next
            case exr: (Inr found)
            with False have "\<not> str_truthy found"
              by (cases found) (auto simp: str_truthy_def)
            with exr assms unf n2 n3 Inr d f doc show ?thesis
              by (auto simp: io_bind_def io_return_def login_attempts_append)
          qed
          moreover have "\<not> (\<exists>d doc pds. fst (discovered_did env iv) = Inr (JStr d) \<and> d \<noteq> []
                 \<and> fst (fetch_did_document env d) = Inr (JObj doc) \<and> doc \<noteq> []
                 \<and> extract_pds_from_did_doc doc d = Inr (Some pds) \<and> pds \<noteq> [])"
            using False res Inr d f doc by auto
          ultimately show ?thesis by blast
        next
          case True
          then obtain pds where pds: "extract_pds_from_did_doc doc d = Inr (Some pds)" "pds \<noteq> []"
            by blast
          have facts: "fst (discovered_did env iv) = Inr (JStr d) \<and> d \<noteq> []
              \<and> fst (fetch_did_document env d) = Inr (JObj doc) \<and> doc \<noteq> []
              \<and> extract_pds_from_did_doc doc d = Inr (Some pds) \<and> pds \<noteq> []"
            using res Inr d f doc pds by simp
          have "login_attempts t = [(Some (xrpc_base pds), iv, pw)]
            \<and> r = (case client_login env (Some (xrpc_base pds)) iv pw of
                     LoginFailed msg \<Rightarrow> Inr None
                   | LoggedIn me pd \<Rightarrow>
                       Inr (Some (\<lparr>base_url = Some (xrpc_base pds), me_did = me\<rparr>,
                                  if str_truthy me then the me else d)))"
            using assms unf n2 n3 Inr d f doc pds
            by (cases "client_login env (Some (xrpc_base pds)) iv pw")
               (auto simp: io_bind_def io_return_def io_lift_def login_attempts_append
                  try_login_some str_truthy_def)
          with facts show ?thesis by blast
        qed
      qed
    qed
  qed
qed

lemma scenario_run:
  "login_flow scenario_env ''bob.example.com'' [''app-password''] =
     (Inr (Some (\<lparr>base_url = Some ''https://pds.example/xrpc'', me_did = None\<rparr>, ''did:plc:xyz'')),
      [],
      [Ask PasswordPrompt,
       Login None ''bob.example.com'' ''app-password'',
       Invoke DnsTxt, DnsQuery ''_atproto.example.com'',
       Invoke WellKnown, HttpGet ''https://example.com/.well-known/atproto-did'' [],
       HttpGet ''https://plc.directory/did:plc:xyz'' [],
       Login (Some ''https://pds.example/xrpc'') ''bob.example.com'' ''app-password''])"
  by (simp add: login_flow_def login_via_pds_def io_bind_def io_return_def io_lift_def
      try_login_def resolve_handle_to_did_def resolve_handle_via_dns_def
      resolve_handle_via_well_known_def fetch_did_document_def extract_pds_from_did_doc_def
      service_list_def py_or_def lookup_def scenario_env_def strip_at_def startswith_def
      endswith_def suffix_to_prefix rstrip_slash_def str_truthy_def
      split1_def item_def and_then_def except_return_def requests_get_def r_json_def
      py_strip_def is_space_def Let_def)

lemma login_via_pds_unfold:
  "login_via_pds env iv pw = io_bind (discovered_did env iv)
     (\<lambda>did.
       if \<not> truthy did then io_return None
       else case did of
         JStr d \<Rightarrow>
           io_bind (fetch_did_document env d)
           (\<lambda>did_doc.
             if \<not> truthy did_doc then io_return None
             else case did_doc of
               JObj doc \<Rightarrow>
                 io_bind (extract_pds_from_did_doc doc d, [])
                 (\<lambda>pds_host.
                   if \<not> str_truthy pds_host then io_return None
                   else
                     io_bind (io_lift (try_login env pds_host iv pw))
                     (\<lambda>attempt. case attempt of
                       Inr (cl, profile_did) \<Rightarrow>
                         io_return (Some (cl, if str_truthy (me_did cl)
                                              then the (me_did cl) else d))
                     | Inl err_text \<Rightarrow> io_return None))
             | _ \<Rightarrow> (Inl AttributeError, []))
       | _ \<Rightarrow> (Inl AttributeError, []))"
  unfolding login_via_pds_def discovered_did_def by (rule refl)

lemma login_via_pds_no_pds:
  assumes "fst (discovered_did env iv) = Inr (JStr d)" and "d \<noteq> []"
    and "fst (fetch_did_document env d) = Inr (JObj doc)" and "doc \<noteq> []"
    and "extract_pds_from_did_doc doc d = Inr found" and "\<not> str_truthy found"
  shows "fst (login_via_pds env iv pw) = Inr None"
    and "login_attempts (snd (login_via_pds env iv pw)) = []"
proof -
  obtain t2 where a: "discovered_did env iv = (Inr (JStr d), t2)"
    using assms(1) by (cases "discovered_did env iv") simp
  obtain t3 where b: "fetch_did_document env d = (Inr (JObj doc), t3)"
    using assms(3) by (cases "fetch_did_document env d") simp
  have n2: "login_attempts t2 = []" using no_login_discovered[of env iv] a by simp
  have n3: "login_attempts t3 = []" using no_login_fetch[of env d] b by simp
  have eq: "login_via_pds env iv pw = (Inr None, t2 @ t3)"
    using assms(2,4,5,6) by (simp add: login_via_pds_unfold a b io_bind_def io_return_def)
  show "fst (login_via_pds env iv pw) = Inr None" using eq by simp
  show "login_attempts (snd (login_via_pds env iv pw)) = []"
    using eq n2 n3 by (simp add: login_attempts_append)
qed

lemma login_flow_outcome:
  assumes "login_flow env raw ins = (r, ins', tr)"
  shows "(login_attempts tr = [] \<and> (r = Inr None \<or> r = Inl EOFError)
          \<and> (py_strip raw = [] \<or> ins = [] \<or> py_strip (hd ins) = []))
       \<or> (\<exists>me pd. py_strip raw \<noteq> [] \<and> ins \<noteq> [] \<and> py_strip (hd ins) \<noteq> []
            \<and> client_login env None (identifier_of raw) (py_strip (hd ins)) = LoggedIn me pd
            \<and> login_attempts tr = [(None, identifier_of raw, py_strip (hd ins))]
            \<and> r = Inr (Some (\<lparr>base_url = None, me_did = me\<rparr>,
                      if str_truthy me then the me
                      else if str_truthy pd then the pd else identifier_of raw)))
       \<or> (\<exists>msg. py_strip raw \<noteq> [] \<and> ins \<noteq> [] \<and> py_strip (hd ins) \<noteq> []
            \<and> client_login env None (identifier_of raw) (py_strip (hd ins)) = LoginFailed msg
            \<and> r = fst (login_via_pds env (identifier_of raw) (py_strip (hd ins)))
            \<and> login_attempts tr =
                (None, identifier_of raw, py_strip (hd ins))
                # login_attempts (snd (login_via_pds env (identifier_of raw) (py_strip (hd ins)))))"
proof (cases "py_strip raw = [] \<or> ins = [] \<or> py_strip (hd ins) = []")
  case True
  with assms show ?thesis
    by (cases ins) (auto simp: login_flow_def Let_def split: if_splits)
next
  case False
  then obtain line rest where ins: "ins = line # rest" and ne: "py_strip raw \<noteq> []" "py_strip line \<noteq> []"
    by (cases ins) auto
  obtain r2 t2 where v: "login_via_pds env (identifier_of raw) (py_strip line) = (r2, t2)" by force
  show ?thesis
  proof (cases "client_login env None (identifier_of raw) (py_strip line)")
    case (LoginFailed msg)
    with assms ins ne v show ?thesis
      by (auto simp: login_flow_def Let_def identifier_of_def io_bind_def io_lift_def
          try_login_def)
  next
    case (LoggedIn me pd)
    with assms ins ne show ?thesis
      by (auto simp: login_flow_def Let_def identifier_of_def io_bind_def io_lift_def
          io_return_def try_login_def str_truthy_def)
  qed
qed

text \<open>
  Claim C2. A run of \<open>login_flow\<close> makes no login attempt, or one against the default
  service, or that one followed by one against the discovered PDS. The second attempt is
  made only when discovery gave a non-empty DID, the fetch gave a non-empty DID document
  and the extraction gave a non-empty PDS endpoint; if it fails, the flow returns \<^verbatim>\<open>None\<close>
  with nothing more tried. When the extraction finds no endpoint, the flow returns \<^verbatim>\<open>None\<close>
  and the default attempt stays the only one.
\<close>

theorem login_flow_attempts:
  assumes "login_flow env raw ins = (r, ins', tr)"
  shows "(login_attempts tr = []
        \<or> login_attempts tr = [(None, identifier_of raw, py_strip (hd ins))]
        \<or> (\<exists>d doc pds.
              login_attempts tr = [(None, identifier_of raw, py_strip (hd ins)),
                                   (Some (xrpc_base pds), identifier_of raw, py_strip (hd ins))]
            \<and> fst (discovered_did env (identifier_of raw)) = Inr (JStr d) \<and> d \<noteq> []
            \<and> fst (fetch_did_document env d) = Inr (JObj doc) \<and> doc \<noteq> []
            \<and> extract_pds_from_did_doc doc d = Inr (Some pds) \<and> pds \<noteq> []
            \<and> (\<forall>msg. client_login env (Some (xrpc_base pds)) (identifier_of raw)
                        (py_strip (hd ins)) = LoginFailed msg \<longrightarrow> r = Inr None)))
     \<and> (\<forall>msg d doc found.
           py_strip raw \<noteq> [] \<and> ins \<noteq> [] \<and> py_strip (hd ins) \<noteq> []
         \<and> client_login env None (identifier_of raw) (py_strip (hd ins)) = LoginFailed msg
         \<and> fst (discovered_did env (identifier_of raw)) = Inr (JStr d) \<and> d \<noteq> []
         \<and> fst (fetch_did_document env d) = Inr (JObj doc) \<and> doc \<noteq> []
         \<and> extract_pds_from_did_doc doc d = Inr found \<and> \<not> str_truthy found
         \<longrightarrow> r = Inr None \<and> login_attempts tr = [(None, identifier_of raw, py_strip (hd ins))])"
proof (intro conjI allI impI)
  let ?iv = "identifier_of raw" and ?pw = "py_strip (hd ins)"
  obtain r2 t2 where v: "login_via_pds env ?iv ?pw = (r2, t2)" by force
  from login_flow_outcome[OF assms] login_via_pds_outcome[OF v]
  show "login_attempts tr = []
        \<or> login_attempts tr = [(None, ?iv, ?pw)]
        \<or> (\<exists>d doc pds.
              login_attempts tr = [(None, ?iv, ?pw), (Some (xrpc_base pds), ?iv, ?pw)]
            \<and> fst (discovered_did env ?iv) = Inr (JStr d) \<and> d \<noteq> []
            \<and> fst (fetch_did_document env d) = Inr (JObj doc) \<and> doc \<noteq> []
            \<and> extract_pds_from_did_doc doc d = Inr (Some pds) \<and> pds \<noteq> []
            \<and> (\<forall>msg. client_login env (Some (xrpc_base pds)) ?iv ?pw = LoginFailed msg
                  \<longrightarrow> r = Inr None))"
    unfolding v by (elim disjE exE conjE) (simp_all, fastforce)
next
  fix msg d doc found
  let ?iv = "identifier_of raw" and ?pw = "py_strip (hd ins)"
  assume h: "py_strip raw \<noteq> [] \<and> ins \<noteq> [] \<and> py_strip (hd ins) \<noteq> []
         \<and> client_login env None ?iv ?pw = LoginFailed msg
         \<and> fst (discovered_did env ?iv) = Inr (JStr d) \<and> d \<noteq> []
         \<and> fst (fetch_did_document env d) = Inr (JObj doc) \<and> doc \<noteq> []
         \<and> extract_pds_from_did_doc doc d = Inr found \<and> \<not> str_truthy found"
  then have a: "fst (login_via_pds env ?iv ?pw) = Inr None"
    and b: "login_attempts (snd (login_via_pds env ?iv ?pw)) = []"
    using login_via_pds_no_pds[of env ?iv d doc found ?pw] by blast+
  from login_flow_outcome[OF assms] h a b
  show "r = Inr None" and "login_attempts tr = [(None, ?iv, ?pw)]"
    by auto
qed

theorem login_flow_attempts_witness:
  "login_attempts (snd (snd (login_flow scenario_env ''bob.example.com'' [''app-password''])))
     = [(None, ''bob.example.com'', ''app-password''),
        (Some ''https://pds.example/xrpc'', ''bob.example.com'', ''app-password'')]
   \<and> identifier_of ''bob.example.com'' = ''bob.example.com''"
  using login_flow_attempts [OF scenario_run]
  by (simp add: scenario_run identifier_of_def py_strip_def is_space_def startswith_def)

text \<open>
  Claim C3. After a successful \<open>login_flow\<close> the session DID is \<^verbatim>\<open>client.me.did\<close> when that
  is present and non-empty. Otherwise, after the default-service login it is the \<^verbatim>\<open>did\<close>
  of the returned profile, or the login identifier when the profile has none; after the
  PDS login it is the DID discovered in step 2.
\<close>

theorem session_did_source:
  assumes "login_flow env raw ins = (Inr (Some (cl, user_did)), ins', tr)"
  shows "(str_truthy (me_did cl) \<longrightarrow> me_did cl = Some user_did)
     \<and> (\<not> str_truthy (me_did cl) \<and> base_url cl = None \<longrightarrow>
          (\<exists>me profile_did.
              client_login env None (identifier_of raw) (py_strip (hd ins)) = LoggedIn me profile_did
            \<and> (str_truthy profile_did \<longrightarrow> profile_did = Some user_did)
            \<and> (\<not> str_truthy profile_did \<longrightarrow> user_did = identifier_of raw)))
     \<and> (\<not> str_truthy (me_did cl) \<and> base_url cl \<noteq> None \<longrightarrow>
          fst (discovered_did env (identifier_of raw)) = Inr (JStr user_did))"
proof -
  let ?iv = "identifier_of raw" and ?pw = "py_strip (hd ins)"
  obtain r2 t2 where v: "login_via_pds env ?iv ?pw = (r2, t2)" by force
  from login_flow_outcome[OF assms] login_via_pds_outcome[OF v]
  show ?thesis
    unfolding v
    by (elim disjE exE conjE)
       (auto simp: str_truthy_def split: login_result.splits option.splits if_splits)
qed

theorem session_did_source_witness:
  "login_flow scenario_env ''bob.example.com'' [''app-password''] =
     (Inr (Some (\<lparr>base_url = Some ''https://pds.example/xrpc'', me_did = None\<rparr>, ''did:plc:xyz'')),
      [],
      [Ask PasswordPrompt,
       Login None ''bob.example.com'' ''app-password'',
       Invoke DnsTxt, DnsQuery ''_atproto.example.com'',
       Invoke WellKnown, HttpGet ''https://example.com/.well-known/atproto-did'' [],
       HttpGet ''https://plc.directory/did:plc:xyz'' [],
       Login (Some ''https://pds.example/xrpc'') ''bob.example.com'' ''app-password''])
   \<and> fst (discovered_did scenario_env (identifier_of ''bob.example.com'')) = Inr (JStr ''did:plc:xyz'')"
  using session_did_source [OF scenario_run]
  by (simp add: scenario_run str_truthy_def)

lemma rstrip_slash_fixed: "\<not> endswith s ''/'' \<Longrightarrow> rstrip_slash s = s"
proof (cases "rev s")
  case Nil
  then show ?thesis by (simp add: rstrip_slash_def)
next
  case (Cons c cs)
  assume "\<not> endswith s ''/''"
  then have "\<not> prefix ''/'' (rev s)" by (simp add: endswith_def suffix_to_prefix)
  with Cons have "c \<noteq> CHR ''/''" by simp
  with Cons have "dropWhile (\<lambda>c. c = CHR ''/'') (rev s) = rev s" by simp
  then show ?thesis by (simp add: rstrip_slash_def)
qed

lemma xrpc_base_ends: "endswith (xrpc_base u) ''/xrpc''"
  by (simp add: xrpc_base_def endswith_def suffix_def)

lemma extract_fixed:
  "extract_pds_from_did_doc doc d = Inr (Some pds) \<Longrightarrow> rstrip_slash pds = pds"
  using extract_trimmed rstrip_slash_no_slash rstrip_slash_fixed by metis

text \<open>
  Claim C9, as amended. For a non-empty base URL, \<open>try_login\<close> logs in against that URL
  if it ends in \<^verbatim>\<open>/xrpc\<close>, and else against the URL without trailing slashes followed by
  \<^verbatim>\<open>/xrpc\<close>; either way the client's URL ends in \<^verbatim>\<open>/xrpc\<close>. So every login attempt of
  \<open>login_flow\<close> against a discovered PDS goes to a URL ending in \<^verbatim>\<open>/xrpc\<close>: the endpoint
  followed by \<^verbatim>\<open>/xrpc\<close> when the endpoint does not end in \<^verbatim>\<open>/xrpc\<close>, and the endpoint
  itself when it does.
\<close>

theorem pds_login_base:
  "(u \<noteq> [] \<longrightarrow>
      snd (try_login env (Some u) i p) = [Login (Some (xrpc_base u)) i p]
    \<and> xrpc_base u = (if endswith u ''/xrpc'' then u else rstrip_slash u @ ''/xrpc'')
    \<and> endswith (xrpc_base u) ''/xrpc'')
   \<and> (login_flow env raw ins = (r, ins', tr) \<longrightarrow>
        (\<forall>b i p. (Some b, i, p) \<in> set (login_attempts tr) \<longrightarrow>
           (\<exists>d doc pds.
               fst (discovered_did env (identifier_of raw)) = Inr (JStr d)
             \<and> fst (fetch_did_document env d) = Inr (JObj doc)
             \<and> extract_pds_from_did_doc doc d = Inr (Some pds) \<and> pds \<noteq> []
             \<and> endswith b ''/xrpc''
             \<and> b = (if endswith pds ''/xrpc'' then pds else pds @ ''/xrpc''))))"
proof (intro conjI impI allI)
  assume "u \<noteq> []"
  then show "snd (try_login env (Some u) i p) = [Login (Some (xrpc_base u)) i p]"
    by (simp add: try_login_some)
  show "xrpc_base u = (if endswith u ''/xrpc'' then u else rstrip_slash u @ ''/xrpc'')"
    by (simp add: xrpc_base_def)
  show "endswith (xrpc_base u) ''/xrpc''" by (rule xrpc_base_ends)
next
  fix b i p
  let ?iv = "identifier_of raw" and ?pw = "py_strip (hd ins)"
  assume run: "login_flow env raw ins = (r, ins', tr)"
    and mem: "(Some b, i, p) \<in> set (login_attempts tr)"
  obtain r2 t2 where v: "login_via_pds env ?iv ?pw = (r2, t2)" by force
  from login_flow_outcome[OF run] mem
  have "(Some b, i, p) \<in> set (login_attempts t2)" unfolding v by auto
  with login_via_pds_outcome[OF v]
  obtain d doc pds where f: "fst (discovered_did env ?iv) = Inr (JStr d)"
      "fst (fetch_did_document env d) = Inr (JObj doc)"
      "extract_pds_from_did_doc doc d = Inr (Some pds)" "pds \<noteq> []"
      and b: "b = xrpc_base pds"
    by auto
  from f(3) have "rstrip_slash pds = pds" by (rule extract_fixed)
  then have "b = (if endswith pds ''/xrpc'' then pds else pds @ ''/xrpc'')"
    using b by (simp add: xrpc_base_def)
  moreover have "endswith b ''/xrpc''" using b xrpc_base_ends by simp
  ultimately show "\<exists>d doc pds.
               fst (discovered_did env ?iv) = Inr (JStr d)
             \<and> fst (fetch_did_document env d) = Inr (JObj doc)
             \<and> extract_pds_from_did_doc doc d = Inr (Some pds) \<and> pds \<noteq> []
             \<and> endswith b ''/xrpc''
             \<and> b = (if endswith pds ''/xrpc'' then pds else pds @ ''/xrpc'')"
    using f by blast
qed

theorem pds_login_base_witness:
  "snd (try_login scenario_env (Some ''https://pds.example/'') ''bob.example.com'' ''app-password'')
     = [Login (Some ''https://pds.example/xrpc'') ''bob.example.com'' ''app-password'']
   \<and> (Some ''https://pds.example/xrpc'', ''bob.example.com'', ''app-password'')
       \<in> set (login_attempts (snd (snd (login_flow scenario_env ''bob.example.com''
                                           [''app-password'']))))
   \<and> extract_pds_from_did_doc
        [(''id'', JStr ''did:plc:xyz''),
         (''service'', JArr [JObj [(''id'', JStr ''#atproto_pds''),
            (''serviceEndpoint'', JStr ''https://pds.example/'')]])] ''did:plc:xyz''
       = Inr (Some ''https://pds.example'')"
  using pds_login_base [of "''https://pds.example/''" scenario_env "''bob.example.com''"
      "''app-password''" "''bob.example.com''" "[''app-password'']"]
  by (simp add: scenario_run try_login_def xrpc_base_def endswith_def suffix_to_prefix
      rstrip_slash_def extract_pds_from_did_doc_def service_list_def py_or_def lookup_def)

text \<open>
  Claim C9 as stated fails: a DID document whose PDS endpoint is
  \<^verbatim>\<open>https://pds.example/xrpc\<close> makes the second login go to that bare endpoint, not to the
  endpoint followed by \<^verbatim>\<open>/xrpc\<close>.
\<close>

theorem pds_login_bare_endpoint:
  "extract_pds_from_did_doc
     [(''service'', JArr [JObj [(''id'', JStr ''#atproto_pds''),
        (''serviceEndpoint'', JStr ''https://pds.example/xrpc'')]])] ''did:plc:abc''
     = Inr (Some ''https://pds.example/xrpc'')
   \<and> login_attempts (snd (snd (login_flow xrpc_env ''did:plc:abc'' [''app-password''])))
     = [(None, ''did:plc:abc'', ''app-password''),
        (Some ''https://pds.example/xrpc'', ''did:plc:abc'', ''app-password'')]"
  by (simp add: login_flow_def login_via_pds_def io_bind_def io_return_def io_lift_def
      try_login_def fetch_did_document_def extract_pds_from_did_doc_def
      service_list_def py_or_def lookup_def xrpc_env_def startswith_def
      endswith_def suffix_to_prefix rstrip_slash_def str_truthy_def
      and_then_def except_return_def requests_get_def r_json_def
      py_strip_def is_space_def Let_def)

text \<open>
  Claim C7, at the input \<^verbatim>\<open>@alice\<close>: \<open>login_flow\<close> trims the input and appends the default
  suffix, but does not strip the leading \<^verbatim>\<open>@\<close>; the identifier of the first login attempt
  is \<^verbatim>\<open>@alice.bsky.social\<close>, in every world.
\<close>

theorem at_sign_kept:
  "identifier_of ''@alice'' = ''@alice.bsky.social''
   \<and> hd (login_attempts (snd (snd (login_flow env ''@alice'' [''app-password'']))))
       = (None, ''@alice.bsky.social'', ''app-password'')"
proof -
  have i: "identifier_of ''@alice'' = ''@alice.bsky.social''"
    by (simp add: identifier_of_def maybe_assume_bsky_def py_strip_def is_space_def
        startswith_def)
  have s: "py_strip ''@alice'' \<noteq> []" "py_strip ''app-password'' = ''app-password''"
    by (simp_all add: py_strip_def is_space_def)
  obtain r ins' tr where run: "login_flow env ''@alice'' [''app-password''] = (r, ins', tr)"
    by (cases "login_flow env ''@alice'' [''app-password'']") auto
  from login_flow_outcome[OF run] s
  have "hd (login_attempts tr) = (None, ''@alice.bsky.social'', ''app-password'')"
    unfolding i by auto
  with i run show ?thesis by simp
qed

section \<open>Empty inputs\<close>

lemma py_strip_ends:
  "py_strip s = [] \<or> (\<not> is_space (hd (py_strip s)) \<and> \<not> is_space (last (py_strip s)))"
proof -
  define t where "t = dropWhile is_space s"
  define w where "w = dropWhile is_space (rev t)"
  have ps: "py_strip s = rev w" by (simp add: py_strip_def t_def w_def)
  show ?thesis
  proof (cases "w = []")
    case True
    with ps show ?thesis by simp
  next
    case False
    then have hw: "\<not> is_space (hd w)" unfolding w_def by (rule hd_dropWhile)
    from False have "rev t \<noteq> []" unfolding w_def by auto
    then have tne: "t \<noteq> []" by simp
    then have ht: "\<not> is_space (hd t)" unfolding t_def by (rule hd_dropWhile)
    have "rev t = takeWhile is_space (rev t) @ w" by (simp add: w_def)
    then have "last (rev t) = last (takeWhile is_space (rev t) @ w)" by simp
    also have "\<dots> = last w" using False by simp
    finally have "last w = hd t" using tne by (simp add: last_rev)
    with ht have "\<not> is_space (last w)" by simp
    with hw False ps show ?thesis by (simp add: hd_rev last_rev)
  qed
qed

lemma py_strip_idem: "py_strip (py_strip s) = py_strip s"
proof (cases "py_strip s = []")
  case True
  have e: "py_strip [] = []" by (simp add: py_strip_def)
  from True have "py_strip (py_strip s) = py_strip []" by (simp only:)
  with True e show ?thesis by (simp only:)
next
  case False
  with py_strip_ends[of s]
  have h: "\<not> is_space (hd (py_strip s))" and l: "\<not> is_space (last (py_strip s))" by auto
  have a: "dropWhile is_space (py_strip s) = py_strip s"
    using h by (simp add: dropWhile_eq_self_iff)
  have b: "dropWhile is_space (rev (py_strip s)) = rev (py_strip s)"
    using l False by (simp add: dropWhile_eq_self_iff hd_rev)
  have "py_strip (py_strip s) = rev (dropWhile is_space (rev (dropWhile is_space (py_strip s))))"
    by (simp only: py_strip_def)
  then show ?thesis by (simp only: a b rev_rev_ident)
qed

lemma login_flow_no_password:
  "py_strip raw \<noteq> [] \<Longrightarrow> py_strip line = [] \<Longrightarrow>
   login_flow env raw (line # ins) = (Inr None, ins, [Ask PasswordPrompt])"
  by (simp add: login_flow_def Let_def)

text \<open>
  Claim C8, as amended. An empty handle makes \<open>main\<close> ask for the handle again, with
  nothing else done. An empty credential makes \<open>login_flow\<close> return \<^verbatim>\<open>None\<close> with no network
  or login request made; \<open>main\<close> then asks whether to try another handle, and goes back to
  the handle prompt on \<^verbatim>\<open>y\<close> or \<^verbatim>\<open>yes\<close> and leaves the loop on any other answer. The
  credential is not asked for again.
\<close>

theorem empty_input_handling:
  "(py_strip line = [] \<longrightarrow> main env (line # ins) = after [Ask HandlePrompt] (main env ins))
   \<and> (py_strip handle \<noteq> [] \<and> py_strip line = [] \<longrightarrow>
        login_flow env handle (line # ins) = (Inr None, ins, [Ask PasswordPrompt])
      \<and> main env (handle # line # ins) =
          (case ins of
             [] \<Rightarrow> (Inl EOFError, [Ask HandlePrompt, Ask PasswordPrompt, Ask TryAnotherHandle])
           | answer # rest \<Rightarrow>
               if py_lower (py_strip answer) = ''y'' \<or> py_lower (py_strip answer) = ''yes''
               then after [Ask HandlePrompt, Ask PasswordPrompt, Ask TryAnotherHandle]
                      (main env rest)
               else (Inr (), [Ask HandlePrompt, Ask PasswordPrompt, Ask TryAnotherHandle])))"
proof (intro conjI impI)
  assume "py_strip line = []"
  then show "main env (line # ins) = after [Ask HandlePrompt] (main env ins)" by simp
next
  assume h: "py_strip handle \<noteq> [] \<and> py_strip line = []"
  then show "login_flow env handle (line # ins) = (Inr None, ins, [Ask PasswordPrompt])"
    by (simp add: login_flow_no_password)
  from h have "login_flow env (py_strip handle) (line # ins) = (Inr None, ins, [Ask PasswordPrompt])"
    by (simp add: login_flow_no_password py_strip_idem)
  with h show "main env (handle # line # ins) =
          (case ins of
             [] \<Rightarrow> (Inl EOFError, [Ask HandlePrompt, Ask PasswordPrompt, Ask TryAnotherHandle])
           | answer # rest \<Rightarrow>
               if py_lower (py_strip answer) = ''y'' \<or> py_lower (py_strip answer) = ''yes''
               then after [Ask HandlePrompt, Ask PasswordPrompt, Ask TryAnotherHandle]
                      (main env rest)
               else (Inr (), [Ask HandlePrompt, Ask PasswordPrompt, Ask TryAnotherHandle]))"
    by (simp add: Let_def split: list.splits)
qed

lemma strip_examples:
  "py_strip ''  '' = []" "py_strip [] = []" "py_strip ''alice.bsky.social'' = ''alice.bsky.social''"
  "py_strip ''no'' = ''no''" "py_strip ''n'' = ''n''" "py_strip ''y'' = ''y''"
  by (simp_all add: py_strip_def is_space_def)

lemma lower_examples: "py_lower ''no'' = ''no''" "py_lower ''n'' = ''n''" "py_lower ''y'' = ''y''"
  by (simp_all add: py_lower_def lower_char_def)

theorem empty_input_handling_witness:
  "main offline_env [''  '', ''alice.bsky.social'', [], ''no''] =
     (Inr (), [Ask HandlePrompt, Ask HandlePrompt, Ask PasswordPrompt, Ask TryAnotherHandle])
   \<and> login_flow offline_env ''alice.bsky.social'' [[], ''no''] =
       (Inr None, [''no''], [Ask PasswordPrompt])"
  using empty_input_handling [of "''  ''" offline_env "[''alice.bsky.social'', [], ''no'']"
      "''alice.bsky.social''"]
    empty_input_handling [of "[]" offline_env "[''no'']" "''alice.bsky.social''"]
  by (simp add: strip_examples lower_examples after_def)

text \<open>
  Claim C8 as stated fails for the credential: after an empty app password the program
  asks \<^verbatim>\<open>Try another handle?\<close>; on \<^verbatim>\<open>n\<close> it ends, and on \<^verbatim>\<open>y\<close> its next prompt is the handle
  prompt, not the password prompt.
\<close>

theorem empty_password_ends_attempt:
  "main offline_env [''alice.bsky.social'', [], ''n''] =
     (Inr (), [Ask HandlePrompt, Ask PasswordPrompt, Ask TryAnotherHandle])
   \<and> main offline_env [''alice.bsky.social'', [], ''y''] =
     (Inl EOFError, [Ask HandlePrompt, Ask PasswordPrompt, Ask TryAnotherHandle, Ask HandlePrompt])"
  by (simp add: strip_examples lower_examples after_def login_flow_no_password Let_def)

section \<open>Exceptions kept inside\<close>

lemma split1_two: "c \<in> set s \<Longrightarrow> \<exists>a b. split1 c s = [a, b]"
proof -
  assume "c \<in> set s"
  then have "dropWhile (\<lambda>x. x \<noteq> c) s \<noteq> []" by (auto simp: dropWhile_eq_Nil_conv)
  then show ?thesis by (cases "dropWhile (\<lambda>x. x \<noteq> c) s") (auto simp: split1_def)
qed

lemma startswith_did_eq: "startswith t ''did='' \<Longrightarrow> CHR ''='' \<in> set t"
  by (auto simp: startswith_def prefix_def)

lemma scan_answers_total: "\<exists>v. scan_answers answers = Inr v"
proof (induction answers)
  case Nil
  then show ?case by simp
next
  case (Cons a answers)
  show ?case
  proof -
    define t0 where "t0 = py_strip a"
    define t1 where "t1 = (if startswith t0 [CHR 0x22] \<and> endswith t0 [CHR 0x22]
                   then butlast (drop 1 t0) else t0)"
    show ?thesis
    proof (cases "startswith t1 ''did=''")
      case True
      then obtain x y where "split1 CHR ''='' t1 = [x, y]"
        using split1_two startswith_did_eq by blast
      with True show ?thesis
        by (simp add: Let_def t0_def[symmetric] t1_def[symmetric] item_def and_then_def)
    next
      case False
      with Cons.IH show ?thesis
        by (simp add: Let_def t0_def[symmetric] t1_def[symmetric])
    qed
  qed
qed

text \<open>
  The other functions keep their exceptions inside: \<open>resolve_handle_via_dns\<close>,
  \<open>resolve_handle_public_api\<close> and \<open>fetch_did_document\<close> return on every input and every
  answer of the network, and so does \<open>resolve_handle_via_well_known\<close> on a handle without
  a slash.
\<close>

theorem strategies_swallow_errors:
  "(\<exists>v. fst (resolve_handle_via_dns env h) = Inr v)
   \<and> (\<exists>v. fst (resolve_handle_public_api env h) = Inr v)
   \<and> (\<exists>v. fst (fetch_did_document env d) = Inr v)
   \<and> (CHR ''/'' \<notin> set (strip_at h) \<longrightarrow> (\<exists>v. fst (resolve_handle_via_well_known env h) = Inr v))"
proof (intro conjI impI)
  show "\<exists>v. fst (resolve_handle_via_dns env h) = Inr v"
    using scan_answers_total
    by (auto simp: resolve_handle_via_dns_def Let_def split: sum.splits)
  show "\<exists>v. fst (resolve_handle_public_api env h) = Inr v"
    by (simp add: resolve_handle_public_api_def Let_def except_return_def split: sum.splits)
  show "\<exists>v. fst (fetch_did_document env d) = Inr v"
    by (simp add: fetch_did_document_def Let_def except_return_def split: sum.splits)
next
  assume ns: "CHR ''/'' \<notin> set (strip_at h)"
  show "\<exists>v. fst (resolve_handle_via_well_known env h) = Inr v"
  proof (cases "CHR ''.'' \<in> set (strip_at h)")
    case True
    then obtain x y where "split1 CHR ''.'' (strip_at h) = [x, y]" using split1_two by blast
    with ns True show ?thesis
      by (simp add: resolve_handle_via_well_known_def Let_def item_def except_return_def
          split: sum.splits)
  next
    case False
    with ns show ?thesis
      by (simp add: resolve_handle_via_well_known_def Let_def except_return_def
          split: sum.splits)
  qed
qed

theorem strategies_swallow_errors_witness:
  "resolve_handle_via_well_known offline_env ''bob.example.com'' =
     (Inr JNull, [Invoke WellKnown, HttpGet ''https://example.com/.well-known/atproto-did'' []])
   \<and> CHR ''/'' \<notin> set (strip_at ''bob.example.com'')
   \<and> fetch_did_document offline_env ''did:plc:xyz'' =
     (Inr JNull, [HttpGet ''https://plc.directory/did:plc:xyz'' []])"
  using strategies_swallow_errors [of offline_env "''bob.example.com''" "''did:plc:xyz''"]
  by (simp add: resolve_handle_via_well_known_def fetch_did_document_def offline_env_def
      strip_at_def startswith_def split1_def item_def and_then_def except_return_def
      requests_get_def Let_def)

end
